theory Spec2Isabelle
  imports Complex_Main "HOL-Library.Word"
begin

section \<open>Matrix core\<close>

text \<open>
  The matrix library (\<^verbatim>\<open>matrix.c\<close>) keeps a matrix as a struct of two C \<^verbatim>\<open>int\<close>s and a
  pointer to a contiguous buffer. The buffer is a list here; \<^verbatim>\<open>rows\<close> and \<^verbatim>\<open>cols\<close> are
  integers, so that a negative value read from a file or passed by a caller is a value of
  the model too. The element type is a parameter: the functions that only move elements
  (copy, reshape, file input and output) are the same for every representation of \<^verbatim>\<open>precision_t\<close>.
\<close>

record 'a matrix_t =
  rows :: int
  cols :: int
  data :: "'a list"

text \<open>
  The ways in which a call does not return a matrix: a failed \<^verbatim>\<open>assert\<close> aborts the
  process; an access outside a buffer, a dereferenced null pointer, the use of a value
  that a short \<^verbatim>\<open>fread\<close> left unset, the use of a block whose size is negative or does
  not fit an \<^verbatim>\<open>int\<close>, and a number read by \<^verbatim>\<open>fscanf\<close> that does not fit an \<^verbatim>\<open>int\<close> are
  undefined behaviour in C.
\<close>

datatype failure =
  Assertion_failed | Out_of_bounds | Null_pointer | Short_read | Bad_alloc | Int_overflow

text \<open>
  \<^verbatim>\<open>precision_t\<close> is \<^verbatim>\<open>double\<close>. The functions of the kernel that compute with elements
  are written for any element type that has the operations they use (the constants
  \<open>0\<close> and \<open>1\<close> and the operators \<open>+\<close>, \<open>-\<close>, \<open>*\<close>, \<open>/\<close> of the type classes, and a
  parameter for the conversion of an \<^verbatim>\<open>int\<close>): what is proved of them for every such type
  holds in the arithmetic of IEEE 754 doubles, with its rounding, its overflow, its
  signed zeros and its NaNs.

  The type below is the interpretation in exact arithmetic, for the claims that are about
  exact arithmetic and for computations whose values are exact in doubles too: a finite
  value is a real number, nothing is rounded and nothing overflows, and the values that
  IEEE 754 adds to the reals are kept, because the code produces and compares them (a
  division of zero by zero, a product of zero and infinity). The sign of a zero is not
  kept.
\<close>

datatype precision_t = Fin real | PInf | NInf | NaN

text \<open>The sign of a value that is not NaN, and the infinity of a given sign.\<close>

fun fp_sign :: "precision_t \<Rightarrow> real" where
  "fp_sign (Fin a) = sgn a"
| "fp_sign PInf = 1"
| "fp_sign NInf = - 1"
| "fp_sign NaN = 0"

definition fp_inf :: "real \<Rightarrow> precision_t" where
  "fp_inf s = (if 0 < s then PInf else if s < 0 then NInf else NaN)"

text \<open>
  The operators of C on \<^verbatim>\<open>double\<close>, without rounding. A NaN operand gives NaN. Infinity minus infinity,
  zero times infinity, zero by zero and infinity by infinity give NaN. A non-zero finite
  value divided by zero gives the infinity of the sign of the dividend (the zero counts
  as positive, its sign not being kept).
\<close>

instantiation precision_t :: "{zero, one, plus, minus, uminus, times, inverse}"
begin

definition zero_precision_t :: precision_t where
  "zero_precision_t = Fin 0"

definition one_precision_t :: precision_t where
  "one_precision_t = Fin 1"

fun uminus_precision_t :: "precision_t \<Rightarrow> precision_t" where
  "uminus_precision_t (Fin a) = Fin (- a)"
| "uminus_precision_t PInf = NInf"
| "uminus_precision_t NInf = PInf"
| "uminus_precision_t NaN = NaN"

fun plus_precision_t :: "precision_t \<Rightarrow> precision_t \<Rightarrow> precision_t" where
  "plus_precision_t (Fin a) (Fin b) = Fin (a + b)"
| "plus_precision_t NaN y = NaN"
| "plus_precision_t x NaN = NaN"
| "plus_precision_t PInf NInf = NaN"
| "plus_precision_t NInf PInf = NaN"
| "plus_precision_t PInf y = PInf"
| "plus_precision_t x PInf = PInf"
| "plus_precision_t NInf y = NInf"
| "plus_precision_t x NInf = NInf"

definition minus_precision_t :: "precision_t \<Rightarrow> precision_t \<Rightarrow> precision_t" where
  "minus_precision_t x y = x + (- y)"

fun times_precision_t :: "precision_t \<Rightarrow> precision_t \<Rightarrow> precision_t" where
  "times_precision_t (Fin a) (Fin b) = Fin (a * b)"
| "times_precision_t NaN y = NaN"
| "times_precision_t x NaN = NaN"
| "times_precision_t x y = fp_inf (fp_sign x * fp_sign y)"

fun divide_precision_t :: "precision_t \<Rightarrow> precision_t \<Rightarrow> precision_t" where
  "divide_precision_t (Fin a) (Fin b) = (if b = 0 then fp_inf (sgn a) else Fin (a / b))"
| "divide_precision_t NaN y = NaN"
| "divide_precision_t x NaN = NaN"
| "divide_precision_t (Fin a) y = Fin 0"
| "divide_precision_t x (Fin b) = fp_inf (if b < 0 then - fp_sign x else fp_sign x)"
| "divide_precision_t x y = NaN"

definition inverse_precision_t :: "precision_t \<Rightarrow> precision_t" where
  "inverse_precision_t x = divide (Fin 1) x"

instance ..

end

text \<open>\<^verbatim>\<open>sqrt\<close> of \<^verbatim>\<open>math.h\<close>: NaN for a negative argument.\<close>

fun fp_sqrt :: "precision_t \<Rightarrow> precision_t" where
  "fp_sqrt (Fin a) = (if a < 0 then NaN else Fin (sqrt a))"
| "fp_sqrt PInf = PInf"
| "fp_sqrt NInf = NaN"
| "fp_sqrt NaN = NaN"

text \<open>The comparisons \<^verbatim>\<open>==\<close> and \<^verbatim>\<open><\<close> on \<^verbatim>\<open>double\<close>: false when an operand is NaN.\<close>

definition fp_eq :: "precision_t \<Rightarrow> precision_t \<Rightarrow> bool" where
  "fp_eq x y \<longleftrightarrow> x \<noteq> NaN \<and> y \<noteq> NaN \<and> x = y"

fun fp_less :: "precision_t \<Rightarrow> precision_t \<Rightarrow> bool" where
  "fp_less (Fin a) (Fin b) \<longleftrightarrow> a < b"
| "fp_less NaN y \<longleftrightarrow> False"
| "fp_less x NaN \<longleftrightarrow> False"
| "fp_less x NInf \<longleftrightarrow> False"
| "fp_less PInf y \<longleftrightarrow> False"
| "fp_less x y \<longleftrightarrow> True"

text \<open>The conversion of an \<^verbatim>\<open>int\<close> to \<^verbatim>\<open>double\<close>.\<close>

definition fp_of_int :: "int \<Rightarrow> precision_t" where
  "fp_of_int n = Fin (of_int n)"

text \<open>The finite values and the real number a finite value denotes.\<close>

fun fp_finite :: "precision_t \<Rightarrow> bool" where
  "fp_finite (Fin a) \<longleftrightarrow> True"
| "fp_finite x \<longleftrightarrow> False"

fun fp_val :: "precision_t \<Rightarrow> real" where
  "fp_val (Fin a) = a"
| "fp_val x = 0"

text \<open>Sequencing of steps that can fail: the first failure is the result.\<close>

definition and_then :: "failure + 'a \<Rightarrow> ('a \<Rightarrow> failure + 'b) \<Rightarrow> failure + 'b" where
  "and_then r f = (case r of Inl e \<Rightarrow> Inl e | Inr x \<Rightarrow> f x)"

text \<open>
  Modelled from the spec: the macro \<^verbatim>\<open>elem(M, i, j)\<close> of \<^verbatim>\<open>matrix.h\<close>, which is not among
  the sources. The spec says: a contiguous column-major buffer, "element (i,j) addressed as
  \<^verbatim>\<open>i + j*rows\<close>". The calls of \<^verbatim>\<open>memcpy\<close> and \<^verbatim>\<open>cblas_dgemm\<close> in \<^verbatim>\<open>matrix.c\<close> (column
  major, leading dimension \<^verbatim>\<open>rows\<close>) agree with it.
\<close>

definition elem_off :: "'a matrix_t \<Rightarrow> int \<Rightarrow> int \<Rightarrow> int" where
  "elem_off M i j = i + j * rows M"

definition elem :: "'a matrix_t \<Rightarrow> int \<Rightarrow> int \<Rightarrow> 'a" where
  "elem M i j = data M ! nat (elem_off M i j)"

definition elem_set :: "'a matrix_t \<Rightarrow> int \<Rightarrow> int \<Rightarrow> 'a \<Rightarrow> 'a matrix_t" where
  "elem_set M i j v = M\<lparr>data := (data M)[nat (elem_off M i j) := v]\<rparr>"

text \<open>
  The invariant of the data model: the dimensions are values of a C \<^verbatim>\<open>int\<close> and not
  negative, the element count fits a C \<^verbatim>\<open>int\<close> too (every constructor computes
  \<^verbatim>\<open>rows * cols\<close> in \<^verbatim>\<open>int\<close>), and the buffer holds exactly \<^verbatim>\<open>rows * cols\<close> elements.
\<close>

definition m_valid :: "'a matrix_t \<Rightarrow> bool" where
  "m_valid M \<longleftrightarrow>
     0 \<le> rows M \<and> rows M < 2 ^ 31 \<and> 0 \<le> cols M \<and> cols M < 2 ^ 31 \<and>
     rows M * cols M < 2 ^ 31 \<and> int (length (data M)) = rows M * cols M"

text \<open>
  \<^verbatim>\<open>for ( i = 0; i < n; i++ ) body\<close> over a state: the counter takes the values
  \<open>0, 1, \<dots>, n - 1\<close> in this order, and no value when \<open>n \<le> 0\<close>.
\<close>

definition for_int :: "int \<Rightarrow> (int \<Rightarrow> 's \<Rightarrow> 's) \<Rightarrow> 's \<Rightarrow> 's" where
  "for_int n body s = fold body (map int [0..<nat n]) s"

text \<open>
  \<^verbatim>\<open>m_initialize\<close> allocates with \<^verbatim>\<open>malloc\<close>: the buffer holds whatever the block held
  before. The function \<open>g\<close> gives these indeterminate contents, cell by cell; every
  theorem about a function that allocates holds for all \<open>g\<close>.
\<close>

definition m_initialize :: "(nat \<Rightarrow> 'a) \<Rightarrow> int \<Rightarrow> int \<Rightarrow> 'a matrix_t" where
  "m_initialize g r c = \<lparr>rows = r, cols = c, data = map g [0..<nat (r * c)]\<rparr>"

text \<open>\<^verbatim>\<open>m_zeros\<close> allocates with \<^verbatim>\<open>calloc\<close>: every cell is zero.\<close>

definition m_zeros :: "int \<Rightarrow> int \<Rightarrow> ('a::zero) matrix_t" where
  "m_zeros r c = \<lparr>rows = r, cols = c, data = replicate (nat (r * c)) 0\<rparr>"

text \<open>
  \<^verbatim>\<open>memcpy(dst, src + off, n * sizeof(precision_t))\<close>: the first \<open>n\<close> cells of the
  destination are replaced by the \<open>n\<close> cells of the source that start at \<open>off\<close>. Reading
  or writing past the end of a buffer is reported.
\<close>

definition memcpy :: "'a list \<Rightarrow> 'a list \<Rightarrow> int \<Rightarrow> int \<Rightarrow> failure + 'a list" where
  "memcpy dst src off n =
     (if 0 \<le> off \<and> 0 \<le> n \<and> off + n \<le> int (length src) \<and> n \<le> int (length dst)
      then Inr (take (nat n) (drop (nat off) src) @ drop (nat n) dst)
      else Inl Out_of_bounds)"

definition m_copy_columns :: "(nat \<Rightarrow> 'a) \<Rightarrow> 'a matrix_t \<Rightarrow> int \<Rightarrow> int \<Rightarrow> failure + 'a matrix_t" where
  "m_copy_columns g M begin end =
     (if \<not> (0 \<le> begin \<and> begin < end \<and> end \<le> cols M) then Inl Assertion_failed
      else
        let C = m_initialize g (rows M) (end - begin) in
        case memcpy (data C) (data M) (elem_off M 0 begin) (rows C * cols C) of
          Inl e \<Rightarrow> Inl e
        | Inr d \<Rightarrow> Inr (C\<lparr>data := d\<rparr>))"

definition m_copy :: "(nat \<Rightarrow> 'a) \<Rightarrow> 'a matrix_t \<Rightarrow> failure + 'a matrix_t" where
  "m_copy g M = m_copy_columns g M 0 (cols M)"

text \<open>
  \<^verbatim>\<open>m_initialize_data\<close> of the test suite fills a fresh matrix from a C array of rows.
\<close>

definition m_initialize_data :: "(nat \<Rightarrow> 'a) \<Rightarrow> int \<Rightarrow> int \<Rightarrow> 'a list list \<Rightarrow> 'a matrix_t" where
  "m_initialize_data g r c d =
     (let M = m_initialize g r c in
      for_int (rows M) (\<lambda>i. for_int (cols M) (\<lambda>j M. elem_set M i j (d ! nat i ! nat j))) M)"

subsection \<open>Reshape\<close>

text \<open>
  A loop whose body can fail: once an iteration has failed, the failure is the result.
\<close>

definition for_int_try :: "int \<Rightarrow> (int \<Rightarrow> 's \<Rightarrow> failure + 's) \<Rightarrow> 's \<Rightarrow> failure + 's" where
  "for_int_try n body s =
     for_int n (\<lambda>i r. case r of Inl e \<Rightarrow> Inl e | Inr t \<Rightarrow> body i t) (Inr s)"

text \<open>The C operators \<^verbatim>\<open>/\<close> and \<^verbatim>\<open>%\<close> on \<^verbatim>\<open>int\<close>: the quotient is truncated towards zero.\<close>

definition c_div :: "int \<Rightarrow> int \<Rightarrow> int" where
  "c_div a b = (if (a < 0) = (b < 0) then \<bar>a\<bar> div \<bar>b\<bar> else - (\<bar>a\<bar> div \<bar>b\<bar>))"

definition c_mod :: "int \<Rightarrow> int \<Rightarrow> int" where
  "c_mod a b = a - b * c_div a b"

text \<open>
  \<^verbatim>\<open>elem(M, i, j)\<close> read and written with the offset checked against the buffer, for the
  loop of \<^verbatim>\<open>m_reshape\<close>, whose indices come from the caller's arguments.
\<close>

definition elem_read :: "'a matrix_t \<Rightarrow> int \<Rightarrow> int \<Rightarrow> failure + 'a" where
  "elem_read M i j =
     (if 0 \<le> elem_off M i j \<and> elem_off M i j < int (length (data M))
      then Inr (elem M i j) else Inl Out_of_bounds)"

definition elem_write :: "'a matrix_t \<Rightarrow> int \<Rightarrow> int \<Rightarrow> 'a \<Rightarrow> failure + 'a matrix_t" where
  "elem_write M i j v =
     (if 0 \<le> elem_off M i j \<and> elem_off M i j < int (length (data M))
      then Inr (elem_set M i j v) else Inl Out_of_bounds)"

definition m_reshape :: "(nat \<Rightarrow> 'a) \<Rightarrow> 'a matrix_t \<Rightarrow> int \<Rightarrow> int \<Rightarrow> failure + 'a matrix_t" where
  "m_reshape g M newNumRows newNumCols =
     (if rows M * cols M \<noteq> newNumRows * newNumCols then Inl Assertion_failed
      else
        for_int_try (newNumRows * newNumCols)
          (\<lambda>i R.
             let r1 = c_div i newNumCols;
                 c1 = c_mod i newNumCols;
                 r2 = c_div i (cols M);
                 c2 = c_mod i (cols M)
             in case elem_read M r2 c2 of
                  Inl e \<Rightarrow> Inl e
                | Inr v \<Rightarrow> elem_write R r1 c1 v)
          (m_initialize g newNumRows newNumCols))"

subsection \<open>Binary input and output\<close>

text \<open>
  A stream is the list of the bytes written so far (for writing) or the list of the bytes
  not yet read (for reading). \<^verbatim>\<open>fwrite\<close> and \<^verbatim>\<open>fread\<close> move object representations: an
  \<^verbatim>\<open>int\<close> is four bytes, a \<^verbatim>\<open>double\<close> is eight bytes, least significant byte first (the
  spec's binary format is little-endian). A matrix that is written or read is therefore
  a matrix of 64-bit patterns: every double, with its sign of zero and its NaN payload,
  is one of them.
\<close>

type_synonym byte = "8 word"

type_synonym double_bits = "64 word"

definition le_bytes :: "nat \<Rightarrow> 'a::len word \<Rightarrow> byte list" where
  "le_bytes n w = map (\<lambda>k. ucast (drop_bit (8 * k) w)) [0..<n]"

definition le_word :: "byte list \<Rightarrow> 'a::len word" where
  "le_word bs = word_of_int (horner_sum uint (2 ^ 8) bs)"

text \<open>\<^verbatim>\<open>fwrite(&x, sizeof(int), 1, stream)\<close>\<close>

definition fwrite_int :: "byte list \<Rightarrow> int \<Rightarrow> byte list" where
  "fwrite_int stream x = stream @ le_bytes 4 (word_of_int x :: 32 word)"

text \<open>\<^verbatim>\<open>fwrite(buf, sizeof(precision_t), n, stream)\<close>\<close>

definition fwrite_doubles :: "byte list \<Rightarrow> double_bits list \<Rightarrow> int \<Rightarrow> byte list" where
  "fwrite_doubles stream buf n = stream @ concat (map (le_bytes 8) (take (nat n) buf))"

definition m_fwrite :: "byte list \<Rightarrow> double_bits matrix_t \<Rightarrow> byte list" where
  "m_fwrite stream M =
     fwrite_doubles (fwrite_int (fwrite_int stream (rows M)) (cols M))
       (data M) (rows M * cols M)"

text \<open>The bytes of one matrix in the binary format: what \<^verbatim>\<open>m_fwrite\<close> adds to a stream.\<close>

definition m_bytes :: "double_bits matrix_t \<Rightarrow> byte list" where
  "m_bytes M = m_fwrite [] M"

text \<open>
  \<^verbatim>\<open>fread(&x, sizeof(int), 1, stream)\<close>: with fewer than four bytes left nothing is stored,
  and \<open>x\<close> stays unset.
\<close>

definition fread_int :: "byte list \<Rightarrow> (int \<times> byte list) option" where
  "fread_int stream =
     (if length stream < 4 then None
      else Some (sint (le_word (take 4 stream) :: 32 word), drop 4 stream))"

text \<open>
  \<^verbatim>\<open>fread(buf, sizeof(precision_t), n, stream)\<close> stores as many whole items as the stream
  still holds, at most \<open>n\<close>; the cells after them keep their contents.
\<close>

definition fread_doubles :: "double_bits list \<Rightarrow> int \<Rightarrow> byte list \<Rightarrow> double_bits list \<times> byte list" where
  "fread_doubles buf n stream =
     (let k = min (nat n) (length stream div 8)
      in (map (\<lambda>i. le_word (take 8 (drop (8 * i) stream))) [0..<k] @ drop k buf,
          drop (8 * nat n) stream))"

text \<open>
  \<^verbatim>\<open>m_fread\<close> checks no return value. The header decides the size of the block; a
  product that is negative or beyond \<^verbatim>\<open>int\<close> gives no usable block.
\<close>

definition m_fread :: "(nat \<Rightarrow> double_bits) \<Rightarrow> byte list \<Rightarrow> failure + (double_bits matrix_t \<times> byte list)" where
  "m_fread g stream =
     (case fread_int stream of
        None \<Rightarrow> Inl Short_read
      | Some (r, s1) \<Rightarrow>
          (case fread_int s1 of
             None \<Rightarrow> Inl Short_read
           | Some (c, s2) \<Rightarrow>
               if r * c < 0 \<or> 2 ^ 31 \<le> r * c then Inl Bad_alloc
               else
                 let M = m_initialize g r c;
                     (d, s3) = fread_doubles (data M) (rows M * cols M) s2
                 in Inr (M\<lparr>data := d\<rparr>, s3)))"

subsection \<open>The identity feature layer\<close>

text \<open>
  Modelled from the spec: the two-argument \<^verbatim>\<open>m_copy(name, M)\<close> that \<^verbatim>\<open>identity.cpp\<close> calls.
  The sources hold only the one-argument \<^verbatim>\<open>m_copy(M)\<close> of \<^verbatim>\<open>matrix.c\<close>. The spec knows
  one operation, "\<^verbatim>\<open>copy(M)\<close>: deep copy"; the added first argument is a label for the new
  matrix and is taken to have no effect on its contents.
\<close>

definition m_copy_named :: "string \<Rightarrow> (nat \<Rightarrow> 'a) \<Rightarrow> 'a matrix_t \<Rightarrow> failure + 'a matrix_t" where
  "m_copy_named name g M = m_copy g M"

text \<open>A returned \<^verbatim>\<open>matrix_t *\<close> is an option: \<^verbatim>\<open>NULL\<close> is \<open>None\<close>.\<close>

definition IdentityLayer_compute :: "'a matrix_t \<Rightarrow> 'e list \<Rightarrow> int \<Rightarrow> 'a matrix_t option" where
  "IdentityLayer_compute X y c = None"

definition IdentityLayer_project :: "(nat \<Rightarrow> 'a) \<Rightarrow> 'a matrix_t \<Rightarrow> failure + 'a matrix_t" where
  "IdentityLayer_project g X = m_copy_named ''P'' g X"

section \<open>Linear algebra kernel\<close>

text \<open>A matrix of the exact interpretation all of whose entries are finite.\<close>

definition m_finite :: "precision_t matrix_t \<Rightarrow> bool" where
  "m_finite M = list_all fp_finite (data M)"

subsection \<open>Construction\<close>

definition m_identity :: "int \<Rightarrow> ('a::{zero,one}) matrix_t" where
  "m_identity r =
     (let M = \<lparr>rows = r, cols = r, data = replicate (nat (r * r)) 0\<rparr>
      in for_int r (\<lambda>i M. elem_set M i i 1) M)"

subsection \<open>The BLAS matrix product\<close>

text \<open>
  \<^verbatim>\<open>cblas_dgemm\<close> belongs to the BLAS library, not to this repository. For column-major
  storage the \<open>m\<close> by \<open>n\<close> block of \<open>C\<close> becomes \<open>alpha * op(A) * op(B) + beta * C\<close>, where
  \<open>op(A)\<close> is \<open>m\<close> by \<open>k\<close> and \<open>op(B)\<close> is \<open>k\<close> by \<open>n\<close>, each the stored matrix or its
  transpose, and \<open>lda\<close>, \<open>ldb\<close>, \<open>ldc\<close> are the strides between columns. The interface
  of the library fixes the cells that an element of the result is computed from: the
  element \<open>(i, j)\<close> from \<open>alpha\<close>, the row \<open>i\<close> of \<open>op(A)\<close>, the column \<open>j\<close> of \<open>op(B)\<close>,
  \<open>beta\<close> and the prior element \<open>(i, j)\<close> of \<open>C\<close>. It does not fix the floating-point
  operations that compute it (the order of the sum, fused operations, terms left out
  for a zero factor, whether \<open>C\<close> is read when \<open>beta\<close> is zero): they are the parameter
  \<open>kern\<close>.
\<close>

datatype CBLAS_TRANSPOSE = CblasNoTrans | CblasTrans

type_synonym 'a dgemm_kernel = "'a \<Rightarrow> 'a list \<Rightarrow> 'a list \<Rightarrow> 'a \<Rightarrow> 'a \<Rightarrow> 'a"

definition dgemm_op :: "CBLAS_TRANSPOSE \<Rightarrow> 'a list \<Rightarrow> int \<Rightarrow> int \<Rightarrow> int \<Rightarrow> 'a" where
  "dgemm_op tr A lda i l =
     (case tr of
        CblasNoTrans \<Rightarrow> A ! nat (i + l * lda)
      | CblasTrans \<Rightarrow> A ! nat (l + i * lda))"

definition cblas_dgemm ::
  "'a dgemm_kernel \<Rightarrow> CBLAS_TRANSPOSE \<Rightarrow> CBLAS_TRANSPOSE \<Rightarrow> int \<Rightarrow> int \<Rightarrow> int \<Rightarrow>
   'a \<Rightarrow> 'a list \<Rightarrow> int \<Rightarrow> 'a list \<Rightarrow> int \<Rightarrow> 'a \<Rightarrow> 'a list \<Rightarrow> int \<Rightarrow> 'a list" where
  "cblas_dgemm kern TransA TransB m n k alpha A lda B ldb beta C ldc =
     map (\<lambda>idx.
            let i = int idx mod ldc;
                j = int idx div ldc
            in if i < m \<and> j < n
               then kern alpha
                      (map (\<lambda>l. dgemm_op TransA A lda i l) (map int [0..<nat k]))
                      (map (\<lambda>l. dgemm_op TransB B ldb l j) (map int [0..<nat k]))
                      beta (C ! idx)
               else C ! idx)
         [0..<length C]"

text \<open>
  The kernel in exact arithmetic: \<open>alpha\<close> times the sum of all the products, plus
  \<open>beta\<close> times the prior element.
\<close>

definition dgemm_exact :: "precision_t dgemm_kernel" where
  "dgemm_exact alpha xs ys beta c =
     alpha * foldl (+) 0 (map (\<lambda>(x, y). x * y) (zip xs ys)) + beta * c"

definition m_product ::
  "('a::{zero,one}) dgemm_kernel \<Rightarrow> 'a matrix_t \<Rightarrow> 'a matrix_t \<Rightarrow> failure + 'a matrix_t" where
  "m_product kern A B =
     (if cols A \<noteq> rows B then Inl Assertion_failed
      else
        let C = m_zeros (rows A) (cols B);
            alpha = 1;
            beta = 0
        in Inr (C\<lparr>data :=
                  cblas_dgemm kern CblasNoTrans CblasNoTrans (rows A) (cols B) (cols A)
                    alpha (data A) (rows A) (data B) (rows B)
                    beta (data C) (rows C)\<rparr>))"

subsection \<open>Means, subtraction, scaling\<close>

text \<open>
  The sources hold two versions of \<^verbatim>\<open>matrix.c\<close>. A function that differs between them is
  modelled twice: under its own name as in the library with the cuBLAS and MKL branches
  (the one \<^verbatim>\<open>test_matrix.c\<close> and \<^verbatim>\<open>database.c\<close> are written against; its CBLAS branch is
  the one modelled), and with the suffix \<open>_cblas\<close> as in the CBLAS-only library. The
  parameter \<open>cast\<close> is the conversion of an \<^verbatim>\<open>int\<close> to \<^verbatim>\<open>precision_t\<close> that C inserts where
  an \<^verbatim>\<open>int\<close> meets a \<^verbatim>\<open>precision_t\<close>.
\<close>

definition m_mean_column :: "(int \<Rightarrow> 'a) \<Rightarrow> ('a::{zero,plus,inverse}) matrix_t \<Rightarrow> 'a matrix_t" where
  "m_mean_column cast M =
     (let a = m_zeros (rows M) 1;
          a = for_int (cols M)
                (\<lambda>i. for_int (rows M) (\<lambda>j a. elem_set a j 0 (elem a j 0 + elem M j i))) a;
          a = for_int (rows M) (\<lambda>i a. elem_set a i 0 (elem a i 0 / cast (cols M))) a
      in a)"

definition m_mean_row :: "(int \<Rightarrow> 'a) \<Rightarrow> ('a::{zero,plus,inverse}) matrix_t \<Rightarrow> 'a matrix_t" where
  "m_mean_row cast M =
     (let a = m_zeros 1 (cols M);
          a = for_int (rows M)
                (\<lambda>i. for_int (cols M) (\<lambda>j a. elem_set a 0 j (elem a 0 j + elem M i j))) a;
          a = for_int (cols M) (\<lambda>i a. elem_set a 0 i (elem a 0 i / cast (rows M))) a
      in a)"

definition m_elem_mult :: "('a::times) matrix_t \<Rightarrow> 'a \<Rightarrow> 'a matrix_t" where
  "m_elem_mult M c =
     for_int (rows M) (\<lambda>i. for_int (cols M) (\<lambda>j M. elem_set M i j (elem M i j * c))) M"

definition m_subtract_columns_cblas :: "('a::minus) matrix_t \<Rightarrow> 'a matrix_t \<Rightarrow> 'a matrix_t" where
  "m_subtract_columns_cblas M a =
     for_int (cols M) (\<lambda>i. for_int (rows M) (\<lambda>j M. elem_set M j i (elem M j i - elem a j 0))) M"

definition m_subtract_rows :: "('a::minus) matrix_t \<Rightarrow> 'a matrix_t \<Rightarrow> failure + 'a matrix_t" where
  "m_subtract_rows M a =
     (if \<not> (cols M = cols a \<and> rows a = 1) then Inl Assertion_failed
      else Inr (for_int (rows M)
                  (\<lambda>i. for_int (cols M) (\<lambda>j M. elem_set M i j (elem M i j - elem a 0 j))) M))"

subsection \<open>Covariance\<close>

text \<open>
  \<^verbatim>\<open>m_covariance\<close> of the library with the cuBLAS and MKL branches: the rows of \<open>M\<close> are
  the observations.
\<close>

definition m_covariance ::
  "'a dgemm_kernel \<Rightarrow> (int \<Rightarrow> 'a) \<Rightarrow> (nat \<Rightarrow> 'a) \<Rightarrow>
   ('a::{zero,one,plus,minus,times,inverse}) matrix_t \<Rightarrow> failure + 'a matrix_t" where
  "m_covariance kern cast g M =
     and_then (m_copy g M) (\<lambda>A.
     let mu = m_mean_row cast A in
     and_then (m_subtract_rows A mu) (\<lambda>A.
     let C = m_zeros (cols A) (cols A);
         alpha = 1;
         beta = 0;
         C = C\<lparr>data :=
               cblas_dgemm kern CblasTrans CblasNoTrans (cols A) (cols A) (rows A)
                 alpha (data A) (rows A) (data A) (rows A)
                 beta (data C) (rows C)\<rparr>;
         c = cast (if rows M > 1 then rows M - 1 else 1)
     in Inr (m_elem_mult C (1 / c))))"

text \<open>
  \<^verbatim>\<open>m_covariance\<close> of the CBLAS-only library: the columns of \<open>M\<close> are the observations.
\<close>

definition m_covariance_cblas ::
  "'a dgemm_kernel \<Rightarrow> (int \<Rightarrow> 'a) \<Rightarrow> (nat \<Rightarrow> 'a) \<Rightarrow>
   ('a::{zero,one,plus,minus,times,inverse}) matrix_t \<Rightarrow> failure + 'a matrix_t" where
  "m_covariance_cblas kern cast g M =
     and_then (m_copy g M) (\<lambda>A.
     let mean = m_mean_column cast A;
         A = m_subtract_columns_cblas A mean;
         C = m_zeros (rows A) (rows A);
         C = C\<lparr>data :=
               cblas_dgemm kern CblasNoTrans CblasTrans (rows A) (rows A) (cols A)
                 1 (data A) (rows A) (data A) (rows A)
                 0 (data C) (rows C)\<rparr>;
         c = cast (if cols M > 1 then cols M - 1 else 1)
     in Inr (m_elem_mult C (1 / c)))"

subsection \<open>Distances between columns\<close>

text \<open>
  The loops of the kernel index a matrix within its own \<open>rows\<close> and \<open>cols\<close>; for a matrix
  that satisfies the invariant these accesses are inside the buffer. The distances, and
  the scan that compares them, are on the exact interpretation of \<^verbatim>\<open>precision_t\<close>.
\<close>

definition m_dist_L2 :: "precision_t matrix_t \<Rightarrow> int \<Rightarrow> precision_t matrix_t \<Rightarrow> int \<Rightarrow> failure + precision_t" where
  "m_dist_L2 A i B j =
     (if rows A \<noteq> rows B then Inl Assertion_failed
      else Inr (for_int (rows A)
                  (\<lambda>k dist. let diff = elem A k i - elem B k j in dist + diff * diff)
                  0))"

text \<open>\<^verbatim>\<open>m_dist_COS\<close> of the matrix library with the cuBLAS and MKL branches.\<close>

definition m_dist_COS :: "precision_t matrix_t \<Rightarrow> int \<Rightarrow> precision_t matrix_t \<Rightarrow> int \<Rightarrow> failure + precision_t" where
  "m_dist_COS A i B j =
     (if rows A \<noteq> rows B then Inl Assertion_failed
      else
        let x_dot_y = for_int (rows A) (\<lambda>k x_dot_y. x_dot_y + elem A k i * elem B k j) 0;
            (abs_x, abs_y) =
               for_int (rows A)
                 (\<lambda>k (abs_x, abs_y).
                    (abs_x + elem A k i * elem A k i, abs_y + elem B k j * elem B k j))
                 (0, 0)
        in Inr (- x_dot_y / fp_sqrt (abs_x * abs_y)))"

text \<open>
  \<^verbatim>\<open>m_dist_COS\<close> of the CBLAS-only matrix library: the two norms are taken before the
  product.
\<close>

definition m_dist_COS_cblas :: "precision_t matrix_t \<Rightarrow> int \<Rightarrow> precision_t matrix_t \<Rightarrow> int \<Rightarrow> failure + precision_t" where
  "m_dist_COS_cblas A i B j =
     (if rows A \<noteq> rows B then Inl Assertion_failed
      else
        let x_dot_y = for_int (rows A) (\<lambda>k x_dot_y. x_dot_y + elem A k i * elem B k j) 0;
            (abs_x, abs_y) =
               for_int (rows A)
                 (\<lambda>k (abs_x, abs_y).
                    (abs_x + elem A k i * elem A k i, abs_y + elem B k j * elem B k j))
                 (0, 0);
            abs_x = fp_sqrt abs_x;
            abs_y = fp_sqrt abs_y
        in Inr (- x_dot_y / (abs_x * abs_y)))"

subsection \<open>Nearest neighbour\<close>

type_synonym dist_func_t =
  "precision_t matrix_t \<Rightarrow> int \<Rightarrow> precision_t matrix_t \<Rightarrow> int \<Rightarrow> failure + precision_t"

text \<open>
  The scan of \<^verbatim>\<open>nearest_neighbor\<close>: the state is the pair \<open>(min_index, min_dist)\<close>, both
  \<open>-1\<close> at the start. A distance function that aborts ends the scan.
\<close>

definition nearest_neighbor :: "precision_t matrix_t \<Rightarrow> precision_t matrix_t \<Rightarrow> dist_func_t \<Rightarrow> failure + int" where
  "nearest_neighbor P P_test dist_func =
     and_then
       (for_int_try (cols P)
          (\<lambda>j (min_index, min_dist).
             and_then (dist_func P_test 0 P j)
               (\<lambda>dist.
                  if fp_eq min_dist (Fin (- 1)) \<or> fp_less dist min_dist
                  then Inr (j, dist)
                  else Inr (min_index, min_dist)))
          (- 1, Fin (- 1)))
       (\<lambda>(min_index, min_dist). Inr min_index)"

subsection \<open>The covariance of the spec\<close>

text \<open>
  The spec's covariance, written from its words for comparison with the code, in the
  arithmetic of the element type. The columns of \<open>M\<close> are the observations and \<open>n\<close> is
  their number. The mean is the sum of the columns, taken from the first to the last,
  divided by \<open>n\<close>; \<open>A = M - mean * 1\<^sup>T\<close> is \<open>M\<close> with the mean subtracted from every
  column; the element \<open>(i, j)\<close> of \<open>A * A\<^sup>T\<close> is the library's product of the row \<open>i\<close> of
  \<open>A\<close> and the column \<open>j\<close> of \<open>A\<^sup>T\<close>, which is the row \<open>j\<close> of \<open>A\<close>; it is multiplied by
  \<open>1 / (n - 1)\<close>, with the divisor \<open>1\<close> when \<open>n \<le> 1\<close>.
\<close>

definition fp_sum :: "('a::{zero,plus}) list \<Rightarrow> 'a" where
  "fp_sum xs = foldl (+) 0 xs"

definition m_row :: "'a matrix_t \<Rightarrow> int \<Rightarrow> 'a list" where
  "m_row M i = map (\<lambda>l. elem M i l) (map int [0..<nat (cols M)])"

definition m_column :: "'a matrix_t \<Rightarrow> int \<Rightarrow> 'a list" where
  "m_column M j = map (\<lambda>l. elem M l j) (map int [0..<nat (rows M)])"

definition spec_covariance ::
  "'a dgemm_kernel \<Rightarrow> (int \<Rightarrow> 'a) \<Rightarrow> ('a::{zero,one,plus,minus,times,inverse}) matrix_t \<Rightarrow>
   int \<Rightarrow> int \<Rightarrow> 'a" where
  "spec_covariance kern cast M i j =
     (let n = cols M;
          mean = (\<lambda>i. fp_sum (m_row M i) / cast n);
          A = (\<lambda>i. map (\<lambda>x. x - mean i) (m_row M i))
      in kern 1 (A i) (A j) 0 0 * (1 / cast (if n \<le> 1 then 1 else n - 1)))"

text \<open>
  The same with the rows of \<open>M\<close> as the observations and \<open>m\<close> their number: the mean row
  is subtracted from every row, and the element \<open>(i, j)\<close> of \<open>A\<^sup>T * A\<close>, the library's
  product of the column \<open>i\<close> and the column \<open>j\<close> of \<open>A\<close>, is multiplied by \<open>1 / (m - 1)\<close>,
  with the divisor \<open>1\<close> when \<open>m \<le> 1\<close>.
\<close>

definition rows_covariance ::
  "'a dgemm_kernel \<Rightarrow> (int \<Rightarrow> 'a) \<Rightarrow> ('a::{zero,one,plus,minus,times,inverse}) matrix_t \<Rightarrow>
   int \<Rightarrow> int \<Rightarrow> 'a" where
  "rows_covariance kern cast M i j =
     (let m = rows M;
          mean = (\<lambda>j. fp_sum (m_column M j) / cast m);
          A = (\<lambda>j. map (\<lambda>x. x - mean j) (m_column M j))
      in kern 1 (A i) (A j) 0 0 * (1 / cast (if m \<le> 1 then 1 else m - 1)))"

text \<open>
  The two covariances on the real values of finite entries, as sums over the
  observations.
\<close>

definition real_mean_column :: "precision_t matrix_t \<Rightarrow> int \<Rightarrow> real" where
  "real_mean_column M i = (\<Sum>l\<in>{0..<cols M}. fp_val (elem M i l)) / of_int (cols M)"

definition real_covariance :: "precision_t matrix_t \<Rightarrow> int \<Rightarrow> int \<Rightarrow> real" where
  "real_covariance M i j =
     (1 / (if cols M \<le> 1 then 1 else of_int (cols M - 1))) *
     (\<Sum>l\<in>{0..<cols M}. (fp_val (elem M i l) - real_mean_column M i) *
                        (fp_val (elem M j l) - real_mean_column M j))"

definition real_mean_row :: "precision_t matrix_t \<Rightarrow> int \<Rightarrow> real" where
  "real_mean_row M j = (\<Sum>l\<in>{0..<rows M}. fp_val (elem M l j)) / of_int (rows M)"

definition real_rows_covariance :: "precision_t matrix_t \<Rightarrow> int \<Rightarrow> int \<Rightarrow> real" where
  "real_rows_covariance M i j =
     (1 / (if rows M \<le> 1 then 1 else of_int (rows M - 1))) *
     (\<Sum>l\<in>{0..<rows M}. (fp_val (elem M l i) - real_mean_row M i) *
                        (fp_val (elem M l j) - real_mean_row M j))"

section \<open>Database\<close>

text \<open>
  \<^verbatim>\<open>database.h\<close> is not among the sources; the two structs are read off the fields that
  \<^verbatim>\<open>database.c\<close> uses. A \<^verbatim>\<open>matrix_t *\<close> field is an option (\<^verbatim>\<open>NULL\<close> is \<open>None\<close>), the
  flags are C \<^verbatim>\<open>int\<close>s that enable an algorithm when they are not zero.
\<close>

record image_entry_t =
  ent_class :: int
  name :: string

record 'a database_t =
  pca :: int
  lda :: int
  ica :: int
  num_images :: int
  num_classes :: int
  num_dimensions :: int
  entries :: "image_entry_t list"
  mean_face :: "'a matrix_t option"
  W_pca_tr :: "'a matrix_t option"
  P_pca :: "'a matrix_t option"
  W_lda_tr :: "'a matrix_t option"
  P_lda :: "'a matrix_t option"
  W_ica_tr :: "'a matrix_t option"
  P_ica :: "'a matrix_t option"

text \<open>\<^verbatim>\<open>db_construct\<close> allocates with \<^verbatim>\<open>calloc\<close>: every other field is zero or \<^verbatim>\<open>NULL\<close>.\<close>

definition db_construct :: "int \<Rightarrow> int \<Rightarrow> int \<Rightarrow> 'a database_t" where
  "db_construct pca' lda' ica' =
     \<lparr>pca = pca', lda = lda', ica = ica',
      num_images = 0, num_classes = 0, num_dimensions = 0, entries = [],
      mean_face = None, W_pca_tr = None, P_pca = None,
      W_lda_tr = None, P_lda = None, W_ica_tr = None, P_ica = None\<rparr>"

text \<open>\<^verbatim>\<open>m_fwrite(tdata, p)\<close> through a pointer field: a null pointer is dereferenced.\<close>

definition m_fwrite_ptr :: "byte list \<Rightarrow> double_bits matrix_t option \<Rightarrow> failure + byte list" where
  "m_fwrite_ptr stream p =
     (case p of None \<Rightarrow> Inl Null_pointer | Some M \<Rightarrow> Inr (m_fwrite stream M))"

text \<open>
  \<^verbatim>\<open>db_save\<close> returns the contents of the two files it writes: the manifest and the
  matrix data; both files are taken to open (the code does not test the result of
  \<^verbatim>\<open>fopen\<close>). The text of one manifest line, \<^verbatim>\<open>fprintf(tset, "%d %s\n", ...)\<close>, is the C
  library's; it is the parameter \<open>print\<close>.
\<close>

definition db_save ::
  "(int \<Rightarrow> string \<Rightarrow> string) \<Rightarrow> double_bits database_t \<Rightarrow> failure + (string \<times> byte list)" where
  "db_save print db =
     (let tset = for_int (num_images db)
                   (\<lambda>i out. out @ print (ent_class (entries db ! nat i)) (name (entries db ! nat i)))
                   []
      in
      and_then (m_fwrite_ptr [] (mean_face db)) (\<lambda>t0.
      and_then (if pca db \<noteq> 0 \<or> lda db \<noteq> 0 \<or> ica db \<noteq> 0
           then and_then (m_fwrite_ptr t0 (W_pca_tr db)) (\<lambda>t. m_fwrite_ptr t (P_pca db))
           else Inr t0) (\<lambda>t1.
      and_then (if lda db \<noteq> 0
           then and_then (m_fwrite_ptr t1 (W_lda_tr db)) (\<lambda>t. m_fwrite_ptr t (P_lda db))
           else Inr t1) (\<lambda>t2.
      and_then (if ica db \<noteq> 0
           then and_then (m_fwrite_ptr t2 (W_ica_tr db)) (\<lambda>t. m_fwrite_ptr t (P_ica db))
           else Inr t2) (\<lambda>t3.
      Inr (tset, t3))))))"

text \<open>
  \<^verbatim>\<open>db_load\<close> reads the matrix data first, sets the two counts from the shapes of what
  it has read, and then reads \<open>num_images\<close> manifest lines, the name of each into a block
  of 64 bytes that it allocates. \<open>gs k\<close> gives the prior contents of the block of the
  \<open>k\<close>-th matrix read, \<open>ge i\<close> the prior contents of the \<open>i\<close>-th entry and of its name
  block. The parse of one manifest line, \<^verbatim>\<open>fscanf(tset, "%d %s", ...)\<close>, is the C
  library's; it is the parameter \<open>scan\<close>, from the unread text to the class id and the
  name that are stored (\<open>None\<close> for a conversion that stores nothing) and the text left.
  The conversion \<^verbatim>\<open>%s\<close> has no field width: the library stores the whole name and a
  terminating zero byte, so a name of 64 or more characters is written past the end of
  the block. The files are taken to open, as for \<^verbatim>\<open>db_save\<close>.
\<close>

type_synonym scan_t = "string \<Rightarrow> failure + ((int option \<times> string option) \<times> string)"

text \<open>The loop of \<^verbatim>\<open>db_load\<close> over the manifest lines: the entries read and the text left.\<close>

definition db_load_entries ::
  "scan_t \<Rightarrow> (nat \<Rightarrow> image_entry_t) \<Rightarrow> int \<Rightarrow> string \<Rightarrow> failure + (image_entry_t list \<times> string)" where
  "db_load_entries scan ge n tset =
     for_int_try n
       (\<lambda>i (es, text).
          and_then (scan text) (\<lambda>((c, nm), text').
            let e = ge (nat i);
                e = (case c of None \<Rightarrow> e | Some v \<Rightarrow> e\<lparr>ent_class := v\<rparr>)
            in case nm of
                 None \<Rightarrow> Inr (es @ [e], text')
               | Some s \<Rightarrow>
                   if 64 < length s + 1 then Inl Out_of_bounds
                   else Inr (es @ [e\<lparr>name := s\<rparr>], text')))
       ([], tset)"

definition db_load ::
  "scan_t \<Rightarrow> (nat \<Rightarrow> nat \<Rightarrow> double_bits) \<Rightarrow> (nat \<Rightarrow> image_entry_t) \<Rightarrow>
   double_bits database_t \<Rightarrow> string \<Rightarrow> byte list \<Rightarrow> failure + double_bits database_t" where
  "db_load scan gs ge db tset tdata =
     and_then (m_fread (gs 0) tdata) (\<lambda>(M0, s0).
     let db0 = db\<lparr>mean_face := Some M0\<rparr> in
     and_then (if pca db0 \<noteq> 0 \<or> lda db0 \<noteq> 0 \<or> ica db0 \<noteq> 0
          then and_then (m_fread (gs 1) s0) (\<lambda>(W, s).
               and_then (m_fread (gs 2) s) (\<lambda>(P, s').
               Inr (db0\<lparr>W_pca_tr := Some W, P_pca := Some P\<rparr>, s')))
          else Inr (db0, s0)) (\<lambda>(db1, s1).
     and_then (if lda db1 \<noteq> 0
          then and_then (m_fread (gs 3) s1) (\<lambda>(W, s).
               and_then (m_fread (gs 4) s) (\<lambda>(P, s').
               Inr (db1\<lparr>W_lda_tr := Some W, P_lda := Some P\<rparr>, s')))
          else Inr (db1, s1)) (\<lambda>(db2, s2).
     and_then (if ica db2 \<noteq> 0
          then and_then (m_fread (gs 5) s2) (\<lambda>(W, s).
               and_then (m_fread (gs 6) s) (\<lambda>(P, s').
               Inr (db2\<lparr>W_ica_tr := Some W, P_ica := Some P\<rparr>, s')))
          else Inr (db2, s2)) (\<lambda>(db3, s3).
     case P_pca db3 of
       None \<Rightarrow> Inl Null_pointer
     | Some P \<Rightarrow>
         (case mean_face db3 of
            None \<Rightarrow> Inl Null_pointer
          | Some M \<Rightarrow>
              let db4 = db3\<lparr>num_images := cols P, num_dimensions := rows M\<rparr> in
              and_then (db_load_entries scan ge (num_images db4) tset)
                (\<lambda>(es, rest). Inr (db4\<lparr>entries := es\<rparr>)))))))"

text \<open>
  The Trained state, as \<^verbatim>\<open>db_train\<close> leaves it: \<open>num_images\<close> entries, the mean face, the
  PCA basis and projection when any algorithm is enabled (PCA is the first step of LDA
  and ICA), and the basis and projection of LDA and of ICA when enabled, each matrix
  satisfying the invariant of the data model.
\<close>

definition m_present :: "'a matrix_t option \<Rightarrow> bool" where
  "m_present p = (case p of None \<Rightarrow> False | Some M \<Rightarrow> m_valid M)"

definition db_trained :: "'a database_t \<Rightarrow> bool" where
  "db_trained db \<longleftrightarrow>
     int (length (entries db)) = num_images db \<and>
     m_present (mean_face db) \<and>
     (pca db \<noteq> 0 \<or> lda db \<noteq> 0 \<or> ica db \<noteq> 0 \<longrightarrow> m_present (W_pca_tr db) \<and> m_present (P_pca db)) \<and>
     (lda db \<noteq> 0 \<longrightarrow> m_present (W_lda_tr db) \<and> m_present (P_lda db)) \<and>
     (ica db \<noteq> 0 \<longrightarrow> m_present (W_ica_tr db) \<and> m_present (P_ica db))"

subsection \<open>The C library on manifest lines\<close>

text \<open>
  The two calls of the C library that \<^verbatim>\<open>db_save\<close> and \<^verbatim>\<open>db_load\<close> make on a manifest
  line, to run them on examples. \<^verbatim>\<open>fprintf(tset, "%d %s\n", c, name)\<close> writes the decimal
  digits of \<open>c\<close> (after a minus sign when it is negative), a space, the name and a
  newline.
\<close>

fun show_nat :: "nat \<Rightarrow> string" where
  "show_nat n =
     (if n < 10 then [char_of (48 + n)]
      else show_nat (n div 10) @ [char_of (48 + n mod 10)])"

definition show_int :: "int \<Rightarrow> string" where
  "show_int i = (if i < 0 then CHR ''-'' # show_nat (nat (- i)) else show_nat (nat i))"

definition fprintf_entry :: "int \<Rightarrow> string \<Rightarrow> string" where
  "fprintf_entry c n = show_int c @ '' '' @ n @ [CHR 0x0A]"

text \<open>
  \<^verbatim>\<open>fscanf(tset, "%d %s", &c, name)\<close>: white space is skipped before each conversion;
  \<^verbatim>\<open>%d\<close> takes an optional sign and the decimal digits that follow, and stores nothing
  (and ends the call) when there is no digit; \<^verbatim>\<open>%s\<close> takes the characters up to the next
  white space, and stores nothing when the text has ended.
\<close>

definition is_space :: "char \<Rightarrow> bool" where
  "is_space c \<longleftrightarrow> c \<in> set [CHR '' '', CHR 0x09, CHR 0x0A, CHR 0x0B, CHR 0x0C, CHR 0x0D]"

definition is_digit :: "char \<Rightarrow> bool" where
  "is_digit c \<longleftrightarrow> c \<in> set ''0123456789''"

definition read_digits :: "string \<Rightarrow> int" where
  "read_digits ds = foldl (\<lambda>v d. 10 * v + (of_char d - 48)) 0 ds"

definition fscanf_entry :: scan_t where
  "fscanf_entry text =
     (let t0 = dropWhile is_space text;
          (neg, t1) =
             (case t0 of
                [] \<Rightarrow> (False, t0)
              | c # r \<Rightarrow>
                  if c = CHR ''-'' then (True, r)
                  else if c = CHR ''+'' then (False, r)
                  else (False, t0));
          ds = takeWhile is_digit t1;
          t2 = dropWhile is_digit t1
      in if ds = [] then Inr ((None, None), t1)
         else
           let v = (if neg then - read_digits ds else read_digits ds) in
           if v < - (2 ^ 31) \<or> 2 ^ 31 \<le> v then Inl Int_overflow
           else
             let t3 = dropWhile is_space t2;
                 s = takeWhile (\<lambda>c. \<not> is_space c) t3;
                 t4 = dropWhile (\<lambda>c. \<not> is_space c) t3
             in Inr ((Some v, if s = [] then None else Some s), t4))"

section \<open>Test data\<close>

text \<open>The matrix of \<^verbatim>\<open>test_m_copy\<close>, as the C array of rows the test declares.\<close>

definition test_m_copy_data :: "precision_t list list" where
  "test_m_copy_data =
     [[Fin 16, Fin 2, Fin 3, Fin 13],
      [Fin 5, Fin 11, Fin 10, Fin 8],
      [Fin 9, Fin 7, Fin 6, Fin 12],
      [Fin 4, Fin 14, Fin 15, Fin 1]]"

text \<open>The prior contents of a fresh block in the examples: every cell NaN.\<close>

definition junk :: "nat \<Rightarrow> precision_t" where
  "junk k = NaN"

text \<open>The matrix of \<^verbatim>\<open>test_m_covariance\<close>: three rows, four columns.\<close>

definition test_m_covariance_data :: "precision_t list list" where
  "test_m_covariance_data =
     [[Fin 5, Fin 0, Fin 3, Fin 7],
      [Fin 1, Fin (- 5), Fin 7, Fin 3],
      [Fin 4, Fin 9, Fin 8, Fin 10]]"

text \<open>
  A training projection of two columns, \<open>(1, 0)\<close> and \<open>(0, 1)\<close>, and a query that is
  the first of them.
\<close>

definition two_columns :: "precision_t matrix_t" where
  "two_columns = \<lparr>rows = 2, cols = 2, data = [Fin 1, Fin 0, Fin 0, Fin 1]\<rparr>"

definition first_column_query :: "precision_t matrix_t" where
  "first_column_query = \<lparr>rows = 2, cols = 1, data = [Fin 1, Fin 0]\<rparr>"

text \<open>
  A small PCA-only database in the Trained state: two images of two pixels, one basis
  vector. The elements are bit patterns of doubles.
\<close>

definition example_mean :: "double_bits matrix_t" where
  "example_mean = \<lparr>rows = 2, cols = 1, data = [0x4000000000000000, 0x4008000000000000]\<rparr>"

definition example_W :: "double_bits matrix_t" where
  "example_W = \<lparr>rows = 1, cols = 2, data = [0x3FF0000000000000, 0]\<rparr>"

definition example_P :: "double_bits matrix_t" where
  "example_P = \<lparr>rows = 1, cols = 2, data = [0xBFF0000000000000, 0x3FF0000000000000]\<rparr>"

definition example_db :: "double_bits database_t" where
  "example_db =
     \<lparr>pca = 1, lda = 0, ica = 0,
      num_images = 2, num_classes = 1, num_dimensions = 2,
      entries = [\<lparr>ent_class = 1, name = ''1_a.ppm''\<rparr>, \<lparr>ent_class = 1, name = ''1_b.ppm''\<rparr>],
      mean_face = Some example_mean, W_pca_tr = Some example_W, P_pca = Some example_P,
      W_lda_tr = None, P_lda = None, W_ica_tr = None, P_ica = None\<rparr>"

text \<open>
  The same database with a first image whose path has 64 characters, the manifest and
  the matrix data that \<^verbatim>\<open>db_save\<close> writes for it, and blocks whose prior contents are
  zero.
\<close>

definition long_name :: string where
  "long_name = ''train_images/orl_faces/subject_01/frontal_views/1_neutral_01.ppm''"

definition long_name_db :: "double_bits database_t" where
  "long_name_db =
     example_db\<lparr>entries := [\<lparr>ent_class = 1, name = long_name\<rparr>,
                             \<lparr>ent_class = 1, name = ''1_b.ppm''\<rparr>]\<rparr>"

definition long_name_manifest :: string where
  "long_name_manifest =
     ''1 '' @ long_name @ [CHR 0x0A] @ ''1 1_b.ppm'' @ [CHR 0x0A]"

definition example_data :: "byte list" where
  "example_data = m_bytes example_mean @ m_bytes example_W @ m_bytes example_P"

definition zero_blocks :: "nat \<Rightarrow> nat \<Rightarrow> double_bits" where
  "zero_blocks k i = 0"

definition zero_entries :: "nat \<Rightarrow> image_entry_t" where
  "zero_entries i = \<lparr>ent_class = 0, name = []\<rparr>"

section \<open>Facts about the matrix core\<close>

lemma elem_off_bounds:
  assumes "m_valid M" "0 \<le> i" "i < rows M" "0 \<le> j" "j < cols M"
  shows "0 \<le> elem_off M i j" and "elem_off M i j < rows M * cols M"
proof -
  from assms show "0 \<le> elem_off M i j"
    by (simp add: elem_off_def m_valid_def)
  have "i + j * rows M < rows M + j * rows M" using assms by simp
  also have "\<dots> = (j + 1) * rows M" by (simp add: algebra_simps)
  also have "\<dots> \<le> cols M * rows M"
    using assms by (intro mult_right_mono) (auto simp: m_valid_def)
  finally show "elem_off M i j < rows M * cols M"
    by (simp add: elem_off_def mult.commute)
qed

subsection \<open>Loops and C division\<close>

lemma for_int_nonpos: "n \<le> 0 \<Longrightarrow> for_int n body s = s"
  by (simp add: for_int_def)

lemma for_int_step: "0 \<le> n \<Longrightarrow> for_int (n + 1) body s = body n (for_int n body s)"
  by (simp add: for_int_def nat_add_distrib)

lemma for_int_invariant:
  assumes init: "P 0 s"
    and step: "\<And>k t. 0 \<le> k \<Longrightarrow> k < n \<Longrightarrow> P k t \<Longrightarrow> P (k + 1) (body k t)"
    and n: "0 \<le> n"
  shows "P n (for_int n body s)"
proof -
  have "m \<le> n \<Longrightarrow> P m (for_int m body s)" if "0 \<le> m" for m
    using that
  proof (induction m rule: int_ge_induct)
    case base
    show ?case using init by (simp add: for_int_nonpos)
  next
    case (step i)
    then show ?case using assms(2) [of i "for_int i body s"] by (simp add: for_int_step)
  qed
  then show ?thesis using n by simp
qed

lemma for_int_try_invariant:
  assumes init: "P 0 s"
    and step: "\<And>k t. 0 \<le> k \<Longrightarrow> k < n \<Longrightarrow> P k t \<Longrightarrow> \<exists>t'. body k t = Inr t' \<and> P (k + 1) t'"
    and n: "0 \<le> n"
  shows "\<exists>t. for_int_try n body s = Inr t \<and> P n t"
  unfolding for_int_try_def
  by (rule for_int_invariant [where P = "\<lambda>k r. \<exists>t. r = Inr t \<and> P k t"])
     (use assms in \<open>auto dest!: step\<close>)

lemma c_div_nonneg: "0 \<le> a \<Longrightarrow> 0 < b \<Longrightarrow> c_div a b = a div b"
  by (simp add: c_div_def)

lemma c_mod_nonneg: "0 \<le> a \<Longrightarrow> 0 < b \<Longrightarrow> c_mod a b = a mod b"
  by (simp add: c_mod_def c_div_nonneg minus_mult_div_eq_mod)

lemma m_valid_length: "m_valid M \<Longrightarrow> length (data M) = nat (rows M * cols M)"
  unfolding m_valid_def by linarith

subsection \<open>Copying columns\<close>

lemma m_copy_columns_fail:
  "\<not> (0 \<le> b \<and> b < e \<and> e \<le> cols M) \<Longrightarrow> m_copy_columns g M b e = Inl Assertion_failed"
  by (simp add: m_copy_columns_def)

lemma m_copy_columns_ok:
  assumes "m_valid M" "0 \<le> b" "b < e" "e \<le> cols M"
  shows "m_copy_columns g M b e =
    Inr \<lparr>rows = rows M, cols = e - b,
         data = take (nat (rows M * (e - b))) (drop (nat (b * rows M)) (data M))\<rparr>"
proof -
  have r: "0 \<le> rows M" and len: "int (length (data M)) = rows M * cols M"
    using assms(1) by (simp_all add: m_valid_def)
  have n0: "0 \<le> rows M * (e - b)" using r assms by simp
  have "b * rows M + rows M * (e - b) = rows M * e" by (simp add: algebra_simps)
  also have "\<dots> \<le> rows M * cols M" using r assms by (intro mult_left_mono) auto
  finally have fit: "b * rows M + rows M * (e - b) \<le> int (length (data M))" using len by simp
  show ?thesis
    using assms r n0 fit
    by (simp add: m_copy_columns_def m_initialize_def memcpy_def elem_off_def Let_def)
qed

lemma m_copy_columns_valid:
  assumes "m_valid M" "0 \<le> b" "b < e" "e \<le> cols M"
  shows "m_valid \<lparr>rows = rows M, cols = e - b,
         data = take (nat (rows M * (e - b))) (drop (nat (b * rows M)) (data M))\<rparr>"
proof -
  have r: "0 \<le> rows M" and len: "int (length (data M)) = rows M * cols M"
    and small: "rows M * cols M < 2 ^ 31" and rsmall: "rows M < 2 ^ 31"
    and csmall: "cols M < 2 ^ 31"
    using assms(1) by (simp_all add: m_valid_def)
  have n0: "0 \<le> rows M * (e - b)" using r assms by simp
  have "b * rows M + rows M * (e - b) = rows M * e" by (simp add: algebra_simps)
  also have "\<dots> \<le> rows M * cols M" using r assms by (intro mult_left_mono) auto
  finally have fit: "b * rows M + rows M * (e - b) \<le> rows M * cols M" .
  have b0: "0 \<le> b * rows M" using r assms by simp
  have "rows M * (e - b) < 2 ^ 31" using fit small b0 by linarith
  moreover have "int (length (take (nat (rows M * (e - b))) (drop (nat (b * rows M)) (data M))))
      = rows M * (e - b)"
    using fit len n0 b0 by (simp add: min_def) linarith
  ultimately show ?thesis using r rsmall csmall assms by (simp add: m_valid_def)
qed

lemma m_copy_columns_elem:
  assumes "m_valid M" "0 \<le> b" "b < e" "e \<le> cols M"
    and "0 \<le> i" "i < rows M" "0 \<le> j" "j < e - b"
  shows "elem \<lparr>rows = rows M, cols = e - b,
         data = take (nat (rows M * (e - b))) (drop (nat (b * rows M)) (data M))\<rparr> i j
       = elem M i (b + j)"
proof -
  let ?C = "\<lparr>rows = rows M, cols = e - b,
         data = take (nat (rows M * (e - b))) (drop (nat (b * rows M)) (data M))\<rparr>"
  have vC: "m_valid ?C" using assms by (intro m_copy_columns_valid)
  have k0: "0 \<le> elem_off ?C i j" and kn: "elem_off ?C i j < rows ?C * cols ?C"
    using elem_off_bounds [OF vC, of i j] assms by simp_all
  have b0: "0 \<le> b * rows M" using assms by (simp add: m_valid_def)
  have in_src: "elem_off M i (b + j) < rows M * cols M"
    and src0: "0 \<le> elem_off M i (b + j)"
    using elem_off_bounds [OF assms(1), of i "b + j"] assms by simp_all
  have off: "nat (b * rows M) + nat (elem_off ?C i j) = nat (elem_off M i (b + j))"
    using k0 b0 by (simp add: elem_off_def nat_add_distrib algebra_simps)
  have "elem ?C i j = drop (nat (b * rows M)) (data M) ! nat (elem_off ?C i j)"
    using k0 kn by (simp add: elem_def)
  also have "\<dots> = data M ! (nat (b * rows M) + nat (elem_off ?C i j))"
  proof (rule nth_drop)
    have "int (nat (elem_off M i (b + j))) < int (length (data M))"
      using in_src src0 assms(1) by (simp add: m_valid_def)
    then show "nat (b * rows M) \<le> length (data M)" using off by linarith
  qed
  finally show ?thesis by (simp add: off elem_def)
qed

lemma test_m_copy_matrix:
  "m_initialize_data g 4 4 test_m_copy_data =
     \<lparr>rows = 4, cols = 4,
       data = [Fin 16, Fin 5, Fin 9, Fin 4, Fin 2, Fin 11, Fin 7, Fin 14,
               Fin 3, Fin 10, Fin 6, Fin 15, Fin 13, Fin 8, Fin 12, Fin 1]\<rparr>"
  by code_simp

lemma test_m_copy_C1:
  "m_copy g (m_initialize_data g 4 4 test_m_copy_data) =
     Inr (m_initialize_data g 4 4 test_m_copy_data)"
  by code_simp

lemma test_m_copy_C2:
  "m_copy_columns g (m_initialize_data g 4 4 test_m_copy_data) 1 3 =
     Inr (m_initialize_data g 4 2
            [[Fin 2, Fin 3], [Fin 11, Fin 10], [Fin 7, Fin 6], [Fin 14, Fin 15]])"
  by code_simp

text \<open>
  C8. \<^verbatim>\<open>m_copy_columns(M, begin, end)\<close> succeeds exactly when
  \<open>0 \<le> begin < end \<le> M.cols\<close>. It then returns a matrix \<open>C\<close> built on a block that
  \<^verbatim>\<open>m_initialize\<close> allocates for it, of \<open>M.rows\<close> rows and \<open>end - begin\<close> columns, with
  \<open>C(i, j) = M(i, begin + j)\<close> for every row \<open>i\<close> and every column \<open>j\<close> of \<open>C\<close>, whatever
  the block held before. For every other \<open>(begin, end)\<close> the assertion fails and no matrix
  is returned. On the 4 by 4 matrix of \<^verbatim>\<open>test_m_copy\<close>, \<^verbatim>\<open>m_copy\<close> returns the same
  4 by 4 matrix and \<^verbatim>\<open>m_copy_columns\<close> with \<open>begin = 1\<close>, \<open>end = 3\<close> returns the 4 by 2
  matrix of the columns 1 and 2.
\<close>

theorem m_copy_columns_contract:
  assumes "m_valid M"
  shows "(0 \<le> b \<and> b < e \<and> e \<le> cols M \<longrightarrow>
            (\<exists>C. m_copy_columns g M b e = Inr C \<and> m_valid C \<and>
                 rows C = rows M \<and> cols C = e - b \<and>
                 (\<forall>i j. 0 \<le> i \<and> i < rows M \<and> 0 \<le> j \<and> j < e - b \<longrightarrow>
                        elem C i j = elem M i (b + j)))) \<and>
         (\<not> (0 \<le> b \<and> b < e \<and> e \<le> cols M) \<longrightarrow>
            m_copy_columns g M b e = Inl Assertion_failed) \<and>
         m_copy g (m_initialize_data g 4 4 test_m_copy_data) =
            Inr (m_initialize_data g 4 4 test_m_copy_data) \<and>
         m_copy_columns g (m_initialize_data g 4 4 test_m_copy_data) 1 3 =
            Inr (m_initialize_data g 4 2
                   [[Fin 2, Fin 3], [Fin 11, Fin 10], [Fin 7, Fin 6], [Fin 14, Fin 15]])"
proof (intro conjI impI)
  assume be: "0 \<le> b \<and> b < e \<and> e \<le> cols M"
  let ?C = "\<lparr>rows = rows M, cols = e - b,
         data = take (nat (rows M * (e - b))) (drop (nat (b * rows M)) (data M))\<rparr>"
  have "m_copy_columns g M b e = Inr ?C"
    using assms be by (intro m_copy_columns_ok) simp_all
  moreover have "m_valid ?C"
    using assms be by (intro m_copy_columns_valid) simp_all
  moreover have "\<forall>i j. 0 \<le> i \<and> i < rows M \<and> 0 \<le> j \<and> j < e - b \<longrightarrow>
                        elem ?C i j = elem M i (b + j)"
    using assms be by (auto intro!: m_copy_columns_elem)
  ultimately show "\<exists>C. m_copy_columns g M b e = Inr C \<and> m_valid C \<and>
                 rows C = rows M \<and> cols C = e - b \<and>
                 (\<forall>i j. 0 \<le> i \<and> i < rows M \<and> 0 \<le> j \<and> j < e - b \<longrightarrow>
                        elem C i j = elem M i (b + j))"
    by (intro exI [of _ ?C]) simp
next
  assume "\<not> (0 \<le> b \<and> b < e \<and> e \<le> cols M)"
  then show "m_copy_columns g M b e = Inl Assertion_failed"
    by (rule m_copy_columns_fail)
qed (rule test_m_copy_C1 test_m_copy_C2)+

theorem m_copy_columns_contract_witness:
  "m_valid \<lparr>rows = 2, cols = 3, data = [Fin 1, Fin 2, Fin 3, Fin 4, Fin 5, Fin 6]\<rparr> \<and>
   (\<exists>C. m_copy_columns (\<lambda>_. NaN)
           \<lparr>rows = 2, cols = 3, data = [Fin 1, Fin 2, Fin 3, Fin 4, Fin 5, Fin 6]\<rparr> 1 3 = Inr C \<and>
        rows C = 2 \<and> cols C = 2 \<and>
        elem C 1 0 = elem \<lparr>rows = 2, cols = 3, data = [Fin 1, Fin 2, Fin 3, Fin 4, Fin 5, Fin 6]\<rparr> 1 1) \<and>
   m_copy_columns (\<lambda>_. NaN)
      \<lparr>rows = 2, cols = 3, data = [Fin 1, Fin 2, Fin 3, Fin 4, Fin 5, Fin 6]\<rparr> 2 2
     = Inl Assertion_failed"
proof -
  let ?M = "\<lparr>rows = 2, cols = 3, data = [Fin 1, Fin 2, Fin 3, Fin 4, Fin 5, Fin 6]\<rparr>"
  have v: "m_valid ?M" by (simp add: m_valid_def)
  from m_copy_columns_contract [OF v, of 1 3 "\<lambda>_. NaN"]
  obtain C where "m_copy_columns (\<lambda>_. NaN) ?M 1 3 = Inr C" "rows C = 2" "cols C = 2"
    "elem C 1 0 = elem ?M 1 1"
    by fastforce
  moreover from m_copy_columns_contract [OF v, of 2 2 "\<lambda>_. NaN"]
  have "m_copy_columns (\<lambda>_. NaN) ?M 2 2 = Inl Assertion_failed" by simp
  ultimately show ?thesis using v by blast
qed

subsection \<open>The identity feature layer\<close>

text \<open>
  C9. The identity layer passes its input through. \<^verbatim>\<open>IdentityLayer::compute\<close> returns
  no model (the null pointer) for every training matrix, label vector and class count.
  \<^verbatim>\<open>IdentityLayer::project(X)\<close> returns a matrix on a block of its own that equals \<open>X\<close>
  in its dimensions and in every element, for every input matrix \<open>X\<close> with at least one
  column, whatever the new block held before; \<open>X\<close> is only read.
\<close>
theorem IdentityLayer_pass_through:
  "IdentityLayer_compute X y c = None \<and>
   (m_valid X \<and> 0 < cols X \<longrightarrow> IdentityLayer_project g X = Inr X)"
proof (intro conjI impI)
  assume a: "m_valid X \<and> 0 < cols X"
  then have "m_copy_columns g X 0 (cols X) = Inr \<lparr>rows = rows X, cols = cols X - 0,
         data = take (nat (rows X * (cols X - 0))) (drop (nat (0 * rows X)) (data X))\<rparr>"
    by (intro m_copy_columns_ok) simp_all
  moreover have "length (data X) = nat (rows X * cols X)"
    using a by (simp add: m_valid_length)
  ultimately show "IdentityLayer_project g X = Inr X"
    by (simp add: IdentityLayer_project_def m_copy_named_def m_copy_def)
qed (simp add: IdentityLayer_compute_def)

theorem IdentityLayer_pass_through_witness:
  "m_valid \<lparr>rows = 2, cols = 1, data = [Fin 3, Fin 4]\<rparr> \<and>
   0 < cols \<lparr>rows = 2, cols = 1, data = [Fin 3, Fin 4]\<rparr> \<and>
   IdentityLayer_project (\<lambda>_. NaN) \<lparr>rows = 2, cols = 1, data = [Fin 3, Fin 4]\<rparr>
     = Inr \<lparr>rows = 2, cols = 1, data = [Fin 3, Fin 4]\<rparr>"
proof -
  let ?X = "\<lparr>rows = 2, cols = 1, data = [Fin 3, Fin 4]\<rparr>"
  have v: "m_valid ?X \<and> 0 < cols ?X" by (simp add: m_valid_def)
  with IdentityLayer_pass_through [of ?X "[]::unit list" 0 "\<lambda>_. NaN"]
  show ?thesis by simp
qed


subsection \<open>Reshape\<close>

lemma int_div_less_bound:
  assumes "(a::int) < b * c" "0 < c"
  shows "a div c < b"
proof -
  have "a div c * c + a mod c = a" by simp
  moreover have "0 \<le> a mod c" using assms(2) by simp
  ultimately have "a div c * c < b * c" using assms(1) by linarith
  then show ?thesis using assms(2) by (simp add: mult_less_cancel_right)
qed

lemma elem_off_inj:
  assumes "0 \<le> a" "a < r" "0 \<le> a'" "a' < r" "a + b * r = a' + b' * (r::int)"
  shows "a = a' \<and> b = b'"
proof -
  have "(a + b * r) mod r = a" "(a' + b' * r) mod r = a'"
    using assms(1-4) by simp_all
  with assms(5) have aa: "a = a'" by simp
  with assms have "b * r = b' * r" by simp
  with assms have "b = b'" by simp
  with aa show ?thesis by simp
qed

lemma elem_set_fields [simp]:
  "rows (elem_set M i j v) = rows M"
  "cols (elem_set M i j v) = cols M"
  "length (data (elem_set M i j v)) = length (data M)"
  "elem_off (elem_set M i j v) i' j' = elem_off M i' j'"
  by (simp_all add: elem_set_def elem_off_def)

lemma elem_elem_set_same:
  "0 \<le> elem_off M i j \<Longrightarrow> elem_off M i j < int (length (data M)) \<Longrightarrow>
   elem (elem_set M i j v) i j = v"
  by (simp add: elem_def elem_set_def elem_off_def)

lemma elem_elem_set_other:
  "elem_off M i j \<noteq> elem_off M i' j' \<Longrightarrow> 0 \<le> elem_off M i j \<Longrightarrow> 0 \<le> elem_off M i' j' \<Longrightarrow>
   elem (elem_set M i j v) i' j' = elem M i' j'"
  by (simp add: elem_def elem_set_def elem_off_def)

text \<open>
  C5. For every matrix \<open>M\<close> and all dimensions \<open>newRows\<close>, \<open>newCols\<close> with
  \<open>M.rows * M.cols = newRows * newCols\<close>, \<^verbatim>\<open>m_reshape\<close> returns a matrix \<open>R\<close> of \<open>newRows\<close>
  rows and \<open>newCols\<close> columns whose element at the row-major position \<open>i\<close>, that is
  \<open>R(i div newCols, i mod newCols)\<close>, is the element of \<open>M\<close> at the row-major position
  \<open>i\<close>, that is \<open>M(i div M.cols, i mod M.cols)\<close>, for every \<open>0 \<le> i < newRows * newCols\<close>:
  the column-major buffer is read and written in row-major order. No cell of the fresh
  block keeps its prior contents.
\<close>

theorem m_reshape_row_major:
  assumes v: "m_valid M" and nr: "0 \<le> nr" and nc: "0 \<le> nc"
    and eq: "rows M * cols M = nr * nc"
  shows "\<exists>R. m_reshape g M nr nc = Inr R \<and> rows R = nr \<and> cols R = nc \<and>
             int (length (data R)) = nr * nc \<and>
             (\<forall>i. 0 \<le> i \<and> i < nr * nc \<longrightarrow>
                  elem R (i div nc) (i mod nc) = elem M (i div cols M) (i mod cols M))"
proof -
  let ?body = "\<lambda>i R.
             let r1 = c_div i nc;
                 c1 = c_mod i nc;
                 r2 = c_div i (cols M);
                 c2 = c_mod i (cols M)
             in case elem_read M r2 c2 of
                  Inl e \<Rightarrow> Inl e
                | Inr v \<Rightarrow> elem_write R r1 c1 v"
  let ?P = "\<lambda>k R. rows R = nr \<and> cols R = nc \<and> int (length (data R)) = nr * nc \<and>
             (\<forall>i. 0 \<le> i \<and> i < k \<longrightarrow>
                  elem R (i div nc) (i mod nc) = elem M (i div cols M) (i mod cols M))"
  have n0: "0 \<le> nr * nc" using nr nc by simp
  have lenM: "int (length (data M)) = rows M * cols M" using v by (simp add: m_valid_def)
  have init: "?P 0 (m_initialize g nr nc)"
    using n0 by (auto simp: m_initialize_def)
  have step: "\<exists>R'. ?body k R = Inr R' \<and> ?P (k + 1) R'"
    if k: "0 \<le> k" "k < nr * nc" and P: "?P k R" for k R
  proof -
    have pos: "0 < nr * nc" using k by simp
    have ncp: "0 < nc" and nrp: "0 < nr"
      using pos nr nc by (auto simp: zero_less_mult_iff)
    have "0 < rows M * cols M" using pos eq by simp
    moreover have "0 \<le> rows M" "0 \<le> cols M" using v by (simp_all add: m_valid_def)
    ultimately have cMp: "0 < cols M" and rMp: "0 < rows M"
      by (auto simp: zero_less_mult_iff)
    have r2: "0 \<le> k div cols M" "k div cols M < rows M"
      using k cMp eq by (simp_all add: pos_imp_zdiv_nonneg_iff int_div_less_bound)
    have c2: "0 \<le> k mod cols M" "k mod cols M < cols M" using cMp by simp_all
    have r1: "0 \<le> k div nc" "k div nc < nr"
      using k ncp by (simp_all add: pos_imp_zdiv_nonneg_iff int_div_less_bound)
    have c1: "0 \<le> k mod nc" "k mod nc < nc" using ncp by simp_all
    have rd: "elem_read M (c_div k (cols M)) (c_mod k (cols M))
                = Inr (elem M (k div cols M) (k mod cols M))"
      using elem_off_bounds [OF v r2 c2] k cMp lenM
      by (simp add: elem_read_def c_div_nonneg c_mod_nonneg)
    have offR: "\<And>a b. elem_off R a b = a + b * nr" using P by (simp add: elem_off_def)
    have w0: "0 \<le> elem_off R (k div nc) (k mod nc)"
      using r1 c1 nr by (simp add: offR)
    have "k div nc + k mod nc * nr < nr + k mod nc * nr" using r1 by simp
    also have "\<dots> = (k mod nc + 1) * nr" by (simp add: algebra_simps)
    also have "\<dots> \<le> nc * nr" using c1 nr by (intro mult_right_mono) auto
    finally have w1: "elem_off R (k div nc) (k mod nc) < int (length (data R))"
      using P by (simp add: offR mult.commute)
    let ?R' = "elem_set R (k div nc) (k mod nc) (elem M (k div cols M) (k mod cols M))"
    have body: "?body k R = Inr ?R'"
      using rd w0 w1 k ncp by (simp add: elem_write_def c_div_nonneg c_mod_nonneg)
    have "elem ?R' (i div nc) (i mod nc) = elem M (i div cols M) (i mod cols M)"
      if i: "0 \<le> i" "i < k + 1" for i
    proof (cases "i = k")
      case True
      then show ?thesis using w0 w1 by (simp add: elem_elem_set_same)
    next
      case False
      with i have ik: "i < k" by simp
      have i1: "0 \<le> i div nc" "i div nc < nr"
        using i ik k ncp by (simp_all add: pos_imp_zdiv_nonneg_iff int_div_less_bound)
      have ic: "0 \<le> i mod nc" using ncp by simp
      have "elem_off R (k div nc) (k mod nc) \<noteq> elem_off R (i div nc) (i mod nc)"
      proof
        assume "elem_off R (k div nc) (k mod nc) = elem_off R (i div nc) (i mod nc)"
        then have "k div nc = i div nc \<and> k mod nc = i mod nc"
          using elem_off_inj [of "k div nc" nr "i div nc" "k mod nc" "i mod nc"] r1 i1
          by (simp add: offR)
        then have "k = i" by (metis mult_div_mod_eq)
        with False show False by simp
      qed
      moreover have "0 \<le> elem_off R (i div nc) (i mod nc)"
        using i1 ic nr by (simp add: offR)
      ultimately have "elem ?R' (i div nc) (i mod nc) = elem R (i div nc) (i mod nc)"
        using w0 by (intro elem_elem_set_other)
      then show ?thesis using P i ik by simp
    qed
    then have "?P (k + 1) ?R'" using P by simp
    with body show ?thesis by blast
  qed
  have "\<exists>R. for_int_try (nr * nc) ?body (m_initialize g nr nc) = Inr R \<and> ?P (nr * nc) R"
    using init step n0 by (rule for_int_try_invariant [where P = ?P])
  then show ?thesis using eq by (simp add: m_reshape_def)
qed

theorem m_reshape_row_major_witness:
  "m_valid \<lparr>rows = 2, cols = 3, data = [1, 2, 3, 4, 5, 6 :: int]\<rparr> \<and>
   (\<exists>R. m_reshape (\<lambda>_. 0) \<lparr>rows = 2, cols = 3, data = [1, 2, 3, 4, 5, 6 :: int]\<rparr> 3 2 = Inr R \<and>
        rows R = 3 \<and> cols R = 2 \<and>
        elem R 1 0 = elem \<lparr>rows = 2, cols = 3, data = [1, 2, 3, 4, 5, 6 :: int]\<rparr> 0 2) \<and>
   m_reshape (\<lambda>_. 0) \<lparr>rows = 2, cols = 3, data = [1, 2, 3, 4, 5, 6 :: int]\<rparr> 3 2
     = Inr \<lparr>rows = 3, cols = 2, data = [1, 5, 4, 3, 2, 6]\<rparr>"
proof -
  let ?M = "\<lparr>rows = 2, cols = 3, data = [1, 2, 3, 4, 5, 6 :: int]\<rparr>"
  have v: "m_valid ?M" by (simp add: m_valid_def)
  from m_reshape_row_major [OF v, of 3 2 "\<lambda>_. 0"]
  obtain R where R: "m_reshape (\<lambda>_. 0) ?M 3 2 = Inr R" "rows R = 3" "cols R = 2"
    and all: "\<forall>i. 0 \<le> i \<and> i < 3 * 2 \<longrightarrow> elem R (i div 2) (i mod 2) = elem ?M (i div cols ?M) (i mod cols ?M)"
    by auto
  from all [rule_format, of 2] have "elem R 1 0 = elem ?M 0 2" by simp
  moreover have "m_reshape (\<lambda>_. 0) ?M 3 2 = Inr \<lparr>rows = 3, cols = 2, data = [1, 5, 4, 3, 2, 6]\<rparr>"
    by code_simp
  ultimately show ?thesis using v R by blast
qed

subsection \<open>Binary input and output\<close>

lemma le_word_le_bytes:
  assumes "LENGTH('a::len) \<le> 8 * n"
  shows "le_word (le_bytes n (w::'a word)) = w"
proof (rule bit_word_eqI)
  fix k assume k: "k < LENGTH('a)"
  then have kn: "k div 8 < n" using assms by auto
  have "8 * (k div 8) + k mod 8 = k" by simp
  then show "bit (le_word (le_bytes n w) :: 'a word) k = bit w k"
    using k kn bit_horner_sum_uint_exp_iff [where 'a = 8, of "le_bytes n w" k]
    by (simp add: le_word_def le_bytes_def bit_word_of_int_iff bit_ucast_iff bit_drop_bit_eq)
qed

lemma length_le_bytes [simp]: "length (le_bytes n w) = n"
  by (simp add: le_bytes_def)

lemma sint_int32:
  fixes x :: int
  assumes "- (2 ^ 31) \<le> x" "x < 2 ^ 31"
  shows "sint (word_of_int x :: 32 word) = x"
  using assms by (simp add: signed_of_int signed_take_bit_int_eq_self)

lemma fread_int_fwrite_int:
  assumes "- (2 ^ 31) \<le> x" "x < 2 ^ 31"
  shows "fread_int (le_bytes 4 (word_of_int x :: 32 word) @ rest) = Some (x, rest)"
  using assms by (simp add: fread_int_def le_word_le_bytes sint_int32)

lemma length_concat_le_bytes [simp]:
  "length (concat (map (le_bytes 8) ds)) = 8 * length ds"
  by (induction ds) simp_all

lemma chunk_concat_le_bytes:
  "i < length ds \<Longrightarrow>
   take 8 (drop (8 * i) (concat (map (le_bytes 8) ds) @ rest)) = le_bytes 8 (ds ! i)"
proof (induction ds arbitrary: i)
  case Nil
  then show ?case by simp
next
  case (Cons d ds)
  show ?case
  proof (cases i)
    case 0
    then show ?thesis by simp
  next
    case (Suc j)
    with Cons.prems have "j < length ds" by simp
    from Cons.IH [OF this] Suc show ?thesis by simp
  qed
qed

lemma fread_doubles_fwrite_doubles:
  fixes ds :: "double_bits list"
  assumes "length buf = length ds"
  shows "fread_doubles buf (int (length ds)) (concat (map (le_bytes 8) ds) @ rest) = (ds, rest)"
proof -
  let ?s = "concat (map (le_bytes 8) ds) @ rest"
  have "length ds \<le> length ?s div 8" by simp
  then have k: "min (nat (int (length ds))) (length ?s div 8) = length ds" by simp
  have "map (\<lambda>i. le_word (take 8 (drop (8 * i) ?s))) [0..<length ds] = map (\<lambda>i. ds ! i) [0..<length ds]"
  proof (rule map_cong [OF refl])
    fix i assume "i \<in> set [0..<length ds]"
    then have "take 8 (drop (8 * i) ?s) = le_bytes 8 (ds ! i)"
      by (intro chunk_concat_le_bytes) simp
    then show "le_word (take 8 (drop (8 * i) ?s)) = ds ! i"
      by (simp only: le_word_le_bytes [where n = 8 and 'a = 64, simplified])
  qed
  also have "\<dots> = ds" by (rule map_nth)
  finally show ?thesis using assms by (simp add: fread_doubles_def k Let_def)
qed

lemma m_fread_m_fwrite:
  assumes "m_valid M"
  shows "m_fread g (m_fwrite [] M @ rest) = Inr (M, rest)"
proof -
  have len: "length (data M) = nat (rows M * cols M)" using assms by (rule m_valid_length)
  have rng: "0 \<le> rows M" "rows M < 2 ^ 31" "0 \<le> cols M" "cols M < 2 ^ 31"
    "rows M * cols M < 2 ^ 31" "\<not> rows M * cols M < 0"
    using assms by (simp_all add: m_valid_def not_less)
  have n: "rows M * cols M = int (length (data M))" using assms by (simp add: m_valid_def)
  have w: "m_fwrite [] M @ rest =
      le_bytes 4 (word_of_int (rows M) :: 32 word) @
      (le_bytes 4 (word_of_int (cols M) :: 32 word) @
       (concat (map (le_bytes 8) (data M)) @ rest))"
    by (simp add: m_fwrite_def fwrite_int_def fwrite_doubles_def len)
  have rd: "fread_doubles (map g [0..<nat (rows M * cols M)]) (rows M * cols M)
              (concat (map (le_bytes 8) (data M)) @ rest) = (data M, rest)"
    unfolding n by (rule fread_doubles_fwrite_doubles) simp
  show ?thesis
    unfolding w m_fread_def using rng
    by (simp add: fread_int_fwrite_int m_initialize_def rd)
qed

lemma m_fwrite_append: "m_fwrite stream M = stream @ m_fwrite [] M"
  by (simp add: m_fwrite_def fwrite_int_def fwrite_doubles_def)

text \<open>
  C4. For every matrix \<open>M\<close>, whatever its double-precision entries, the bytes that
  \<^verbatim>\<open>m_fwrite\<close> produces are read back by \<^verbatim>\<open>m_fread\<close> as a matrix with the same \<open>rows\<close>, the
  same \<open>cols\<close> and the same bit pattern in every element; the read consumes exactly the
  bytes written and does not depend on what the freshly allocated block held.
\<close>

theorem m_fwrite_m_fread_round_trip:
  assumes "m_valid M"
  shows "m_fread g (m_fwrite [] M) = Inr (M, [])"
  using m_fread_m_fwrite [OF assms, of g "[]"] by simp

theorem m_fwrite_m_fread_round_trip_witness:
  "m_valid \<lparr>rows = 1, cols = 3,
            data = [0x3FF0000000000000, 0x8000000000000000, 0x7FF8000000000001 :: double_bits]\<rparr> \<and>
   m_fread (\<lambda>_. 0)
     (m_fwrite [] \<lparr>rows = 1, cols = 3,
            data = [0x3FF0000000000000, 0x8000000000000000, 0x7FF8000000000001]\<rparr>)
     = Inr (\<lparr>rows = 1, cols = 3,
            data = [0x3FF0000000000000, 0x8000000000000000, 0x7FF8000000000001]\<rparr>, [])"
proof -
  let ?M = "\<lparr>rows = 1, cols = 3,
            data = [0x3FF0000000000000, 0x8000000000000000, 0x7FF8000000000001 :: double_bits]\<rparr>"
  have v: "m_valid ?M" by (simp add: m_valid_def)
  from m_fwrite_m_fread_round_trip [OF v, of "\<lambda>_. 0"] v show ?thesis by simp
qed

section \<open>Facts about the database\<close>

lemma m_fwrite_m_bytes: "m_fwrite stream M = stream @ m_bytes M"
  by (simp add: m_bytes_def m_fwrite_def fwrite_int_def fwrite_doubles_def)

lemma m_fread_m_bytes:
  "m_valid M \<Longrightarrow> m_fread g (m_bytes M @ rest) = Inr (M, rest)"
  "m_valid M \<Longrightarrow> m_fread g (m_bytes M) = Inr (M, [])"
  using m_fread_m_fwrite [of M g rest] m_fread_m_fwrite [of M g "[]"]
  by (simp_all add: m_bytes_def)

lemma m_presentE:
  assumes "m_present p"
  obtains M where "p = Some M" "m_valid M"
  using assms by (cases p) (simp_all add: m_present_def)

lemma for_int_try_failure:
  assumes "for_int_try n body s = Inl e"
  shows "\<exists>i t. body i t = Inl e"
proof -
  have "fold (\<lambda>i r. case r of Inl e \<Rightarrow> Inl e | Inr t \<Rightarrow> body i t) xs r0 = Inl e \<Longrightarrow>
        r0 = Inl e \<or> (\<exists>i t. body i t = Inl e)" for xs :: "int list" and r0
  proof (induction xs arbitrary: r0)
    case Nil
    then show ?case by simp
  next
    case (Cons x xs)
    from Cons.IH [OF Cons.prems [simplified]] show ?case
      by (cases r0) auto
  qed
  from this [of "map int [0..<nat n]" "Inr s"] assms show ?thesis
    by (simp add: for_int_try_def for_int_def)
qed

text \<open>
  The loop over the manifest lines fails in two ways only: the library's parse runs into
  undefined behaviour, or a name does not fit its block of 64 bytes.
\<close>

lemma db_load_entries_failure:
  assumes "db_load_entries scan ge n tset = Inl e"
  shows "e = Out_of_bounds \<or> (\<exists>t. scan t = Inl e)"
proof -
  from for_int_try_failure [OF assms [unfolded db_load_entries_def]]
  obtain i es t where "and_then (scan t) (\<lambda>((c, nm), text').
            let e = ge (nat i);
                e = (case c of None \<Rightarrow> e | Some v \<Rightarrow> e\<lparr>ent_class := v\<rparr>)
            in case nm of
                 None \<Rightarrow> Inr (es @ [e], text')
               | Some s \<Rightarrow>
                   if 64 < length s + 1 then Inl Out_of_bounds
                   else Inr (es @ [e\<lparr>name := s\<rparr>], text')) = Inl e"
    by auto
  then show ?thesis
    by (auto simp: and_then_def Let_def split: sum.splits option.splits if_splits)
qed

text \<open>
  What \<^verbatim>\<open>db_load\<close> restores. For every database in the Trained state with at least one
  algorithm enabled, \<^verbatim>\<open>db_save\<close> succeeds, and the matrix data it writes are the mean face,
  the PCA basis and projection, and then the basis and projection of LDA and of ICA when
  enabled, in this order. A \<^verbatim>\<open>db_load\<close> of the saved matrix data into a
  database constructed with the same flags reads every matrix back; it then fails on the
  manifest, in one of the two ways above, or it returns, and then it has restored the
  mean face, the PCA basis and projection, and the basis and projection of LDA and of ICA
  when enabled, and has set \<open>num_images\<close> to the column count of the loaded PCA projection
  and \<open>num_dimensions\<close> to the row count of the loaded mean face. This holds for every
  manifest and every parse of its lines: neither count comes from the manifest.
\<close>

lemma db_save_db_load_matrices:
  assumes tr: "db_trained db" and en: "pca db \<noteq> 0 \<or> lda db \<noteq> 0 \<or> ica db \<noteq> 0"
  shows "\<exists>tset tdata. db_save print db = Inr (tset, tdata) \<and>
           tdata = m_bytes (the (mean_face db)) @
                   m_bytes (the (W_pca_tr db)) @ m_bytes (the (P_pca db)) @
                   (if lda db \<noteq> 0 then m_bytes (the (W_lda_tr db)) @ m_bytes (the (P_lda db)) else []) @
                   (if ica db \<noteq> 0 then m_bytes (the (W_ica_tr db)) @ m_bytes (the (P_ica db)) else []) \<and>
           (\<forall>tset'.
              db_load scan gs ge (db_construct (pca db) (lda db) (ica db)) tset' tdata = Inl Out_of_bounds \<or>
              (\<exists>e t. scan t = Inl e \<and>
                 db_load scan gs ge (db_construct (pca db) (lda db) (ica db)) tset' tdata = Inl e) \<or>
              (\<exists>db'. db_load scan gs ge (db_construct (pca db) (lda db) (ica db)) tset' tdata = Inr db' \<and>
                 mean_face db' = mean_face db \<and> W_pca_tr db' = W_pca_tr db \<and> P_pca db' = P_pca db \<and>
                 (lda db \<noteq> 0 \<longrightarrow> W_lda_tr db' = W_lda_tr db \<and> P_lda db' = P_lda db) \<and>
                 (ica db \<noteq> 0 \<longrightarrow> W_ica_tr db' = W_ica_tr db \<and> P_ica db' = P_ica db) \<and>
                 (\<exists>P M. P_pca db' = Some P \<and> mean_face db' = Some M \<and>
                        num_images db' = cols P \<and> num_dimensions db' = rows M)))"
proof -
  from tr obtain M0 where M0: "mean_face db = Some M0" "m_valid M0"
    by (auto simp: db_trained_def elim: m_presentE)
  from tr en obtain W1 P1 where pc: "W_pca_tr db = Some W1" "m_valid W1" "P_pca db = Some P1" "m_valid P1"
    by (auto simp: db_trained_def elim!: m_presentE)
  have l: "\<exists>W P. W_lda_tr db = Some W \<and> m_valid W \<and> P_lda db = Some P \<and> m_valid P" if "lda db \<noteq> 0"
    using tr that by (auto simp: db_trained_def elim!: m_presentE)
  have i: "\<exists>W P. W_ica_tr db = Some W \<and> m_valid W \<and> P_ica db = Some P \<and> m_valid P" if "ica db \<noteq> 0"
    using tr that by (auto simp: db_trained_def elim!: m_presentE)
  note fail = db_load_entries_failure [of scan ge]
  show ?thesis
  proof (cases "lda db \<noteq> 0"; cases "ica db \<noteq> 0")
    assume a: "lda db \<noteq> 0" "ica db \<noteq> 0"
    from l [OF a(1)] obtain W2 P2 where ld: "W_lda_tr db = Some W2" "m_valid W2" "P_lda db = Some P2" "m_valid P2" by blast
    from i [OF a(2)] obtain W3 P3 where ic: "W_ica_tr db = Some W3" "m_valid W3" "P_ica db = Some P3" "m_valid P3" by blast
    show ?thesis
      using a M0 pc ld ic fail
      by (simp add: db_save_def db_load_def db_construct_def and_then_def m_fwrite_ptr_def
          m_fwrite_m_bytes m_fread_m_bytes Let_def split_beta split: sum.splits) blast?
  next
    assume a: "lda db \<noteq> 0" "\<not> ica db \<noteq> 0"
    from l [OF a(1)] obtain W2 P2 where ld: "W_lda_tr db = Some W2" "m_valid W2" "P_lda db = Some P2" "m_valid P2" by blast
    show ?thesis
      using a M0 pc ld fail
      by (simp add: db_save_def db_load_def db_construct_def and_then_def m_fwrite_ptr_def
          m_fwrite_m_bytes m_fread_m_bytes Let_def split_beta split: sum.splits) blast?
  next
    assume a: "\<not> lda db \<noteq> 0" "ica db \<noteq> 0"
    from i [OF a(2)] obtain W3 P3 where ic: "W_ica_tr db = Some W3" "m_valid W3" "P_ica db = Some P3" "m_valid P3" by blast
    show ?thesis
      using a M0 pc ic fail
      by (simp add: db_save_def db_load_def db_construct_def and_then_def m_fwrite_ptr_def
          m_fwrite_m_bytes m_fread_m_bytes Let_def split_beta split: sum.splits) blast?
  next
    assume a: "\<not> lda db \<noteq> 0" "\<not> ica db \<noteq> 0"
    with en have "pca db \<noteq> 0" by simp
    then show ?thesis
      using a M0 pc fail
      by (simp add: db_save_def db_load_def db_construct_def and_then_def m_fwrite_ptr_def
          m_fwrite_m_bytes m_fread_m_bytes Let_def split_beta split: sum.splits) blast?
  qed
qed

text \<open>
  The example database is in the Trained state; saved and loaded with the two calls of
  the C library, it comes back with its entries and its matrices (and without its class
  count, which \<^verbatim>\<open>db_load\<close> does not set).
\<close>

lemma example_db_trained: "db_trained example_db" "db_trained long_name_db"
  by (simp_all add: db_trained_def example_db_def long_name_db_def m_present_def m_valid_def
      example_mean_def example_W_def example_P_def)

lemma example_db_round_trip:
  "db_save fprintf_entry example_db
     = Inr (''1 1_a.ppm'' @ [CHR 0x0A] @ ''1 1_b.ppm'' @ [CHR 0x0A], example_data)"
  "db_load fscanf_entry zero_blocks zero_entries (db_construct 1 0 0)
     (''1 1_a.ppm'' @ [CHR 0x0A] @ ''1 1_b.ppm'' @ [CHR 0x0A]) example_data
     = Inr (example_db\<lparr>num_classes := 0\<rparr>)"
  by code_simp+

text \<open>
  C3, at an input where the code departs from it. The database is in the Trained state
  with PCA enabled, and the path of its first image has 64 characters. \<^verbatim>\<open>db_save\<close>
  writes the manifest and the matrix data. \<^verbatim>\<open>db_load\<close> of the two files, into a database
  constructed with the same flags, reads the three matrices and then stores the 64
  characters of the first name and the terminating zero byte in a block of 64 bytes: it
  writes past the end of the block and restores nothing.
\<close>

theorem db_load_long_name:
  "db_save fprintf_entry long_name_db = Inr (long_name_manifest, example_data) \<and>
   db_load fscanf_entry zero_blocks zero_entries
     (db_construct (pca long_name_db) (lda long_name_db) (ica long_name_db))
     long_name_manifest example_data = Inl Out_of_bounds \<and>
   length long_name = 64"
  by code_simp

theorem db_load_long_name_witness:
  "db_load fscanf_entry zero_blocks zero_entries (db_construct 1 0 0)
     long_name_manifest example_data = Inl Out_of_bounds"
  using db_load_long_name by (simp add: long_name_db_def example_db_def)

section \<open>Facts about the nearest neighbour\<close>

lemma nearest_neighbor_scan_range:
  assumes n: "0 \<le> n"
  shows "case for_int n
           (\<lambda>j r. case r of Inl e \<Rightarrow> Inl e
                  | Inr t \<Rightarrow> (case t of (min_index, min_dist) \<Rightarrow>
                      and_then (d P_test 0 P j)
                        (\<lambda>dist. if fp_eq min_dist (Fin (- 1)) \<or> fp_less dist min_dist
                                then Inr (j, dist) else Inr (min_index, min_dist))))
           (Inr (- 1, Fin (- 1)))
         of Inl e \<Rightarrow> True
          | Inr (mi, md) \<Rightarrow> (n = 0 \<longrightarrow> mi = - 1 \<and> md = Fin (- 1)) \<and> (0 < n \<longrightarrow> 0 \<le> mi \<and> mi < n)"
  (is "?Q n (for_int n ?body ?init)")
proof (rule for_int_invariant [where P = ?Q])
  show "?Q 0 ?init" by simp
next
  fix k :: int and t :: "failure + int \<times> precision_t"
  assume k: "0 \<le> k" "k < n" and Q: "?Q k t"
  show "?Q (k + 1) (?body k t)"
  proof (cases t)
    case (Inl e)
    then show ?thesis by simp
  next
    case (Inr p)
    obtain mi md where p: "p = (mi, md)" by (cases p)
    show ?thesis
    proof (cases "d P_test 0 P k")
      case (Inl e)
      then show ?thesis using Inr p by (simp add: and_then_def)
    next
      case dist: (Inr x)
      show ?thesis
      proof (cases "k = 0")
        case True
        with Q Inr p have "md = Fin (- 1)" by simp
        then show ?thesis using Inr p dist True by (simp add: and_then_def fp_eq_def)
      next
        case False
        with k Q Inr p have "0 \<le> mi" "mi < k" by simp_all
        then show ?thesis using Inr p dist k by (simp add: and_then_def)
      qed
    qed
  qed
qed (rule n)

lemma nearest_neighbor_returns:
  assumes "0 \<le> cols P"
    and "\<forall>j. 0 \<le> j \<and> j < cols P \<longrightarrow> (\<exists>x. d P_test 0 P j = Inr x)"
  shows "\<exists>r. nearest_neighbor P P_test d = Inr r"
proof -
  have "\<exists>t. for_int_try (cols P)
          (\<lambda>j (min_index, min_dist).
             and_then (d P_test 0 P j)
               (\<lambda>dist. if fp_eq min_dist (Fin (- 1)) \<or> fp_less dist min_dist
                       then Inr (j, dist) else Inr (min_index, min_dist)))
          (- 1, Fin (- 1)) = Inr t \<and> True"
  proof (rule for_int_try_invariant [where P = "\<lambda>_ _. True"])
    fix k :: int and t :: "int \<times> precision_t"
    assume "0 \<le> k" "k < cols P"
    with assms(2) obtain x where "d P_test 0 P k = Inr x" by blast
    then show "\<exists>t'. (case t of (min_index, min_dist) \<Rightarrow>
             and_then (d P_test 0 P k)
               (\<lambda>dist. if fp_eq min_dist (Fin (- 1)) \<or> fp_less dist min_dist
                       then Inr (k, dist) else Inr (min_index, min_dist))) = Inr t' \<and> True"
      by (cases t) (simp add: and_then_def)
  qed (simp_all add: assms(1))
  then show ?thesis by (auto simp: nearest_neighbor_def and_then_def)
qed

lemma nearest_neighbor_range:
  assumes "0 \<le> cols P" and "nearest_neighbor P P_test d = Inr r"
  shows "(r = - 1 \<longleftrightarrow> cols P = 0) \<and> (0 < cols P \<longrightarrow> 0 \<le> r \<and> r < cols P)"
proof -
  from assms(2) obtain md where
    "for_int_try (cols P)
          (\<lambda>j (min_index, min_dist).
             and_then (d P_test 0 P j)
               (\<lambda>dist. if fp_eq min_dist (Fin (- 1)) \<or> fp_less dist min_dist
                       then Inr (j, dist) else Inr (min_index, min_dist)))
          (- 1, Fin (- 1)) = Inr (r, md)"
    by (auto simp: nearest_neighbor_def and_then_def split: sum.splits)
  with nearest_neighbor_scan_range [OF assms(1), of d P_test P]
  have "(cols P = 0 \<longrightarrow> r = - 1) \<and> (0 < cols P \<longrightarrow> 0 \<le> r \<and> r < cols P)"
    by (simp add: for_int_try_def)
  with assms(1) show ?thesis by auto
qed

lemma m_dist_returns:
  assumes "rows A = rows B"
  shows "\<exists>x. m_dist_L2 A i B j = Inr x" "\<exists>x. m_dist_COS A i B j = Inr x"
    "\<exists>x. m_dist_COS_cblas A i B j = Inr x"
  using assms by (simp_all add: m_dist_L2_def m_dist_COS_def m_dist_COS_cblas_def Let_def case_prod_unfold)

text \<open>
  C10. \<^verbatim>\<open>nearest_neighbor(P, P_test, dist_func)\<close>, for every distance function, returns
  \<open>-1\<close> if and only if \<open>P\<close> has no column, and an index in the range \<open>[0, P.cols)\<close> when
  \<open>P\<close> has at least one column, so the entry the orchestrator then looks up exists. It
  does return whenever the distance function returns on every column of \<open>P\<close>; the
  distance functions of the kernel return when \<open>P_test\<close> and \<open>P\<close> have the same number of
  rows.
\<close>

theorem nearest_neighbor_index_in_range:
  assumes "0 \<le> cols P"
  shows "(\<forall>r. nearest_neighbor P P_test d = Inr r \<longrightarrow>
              (r = - 1 \<longleftrightarrow> cols P = 0) \<and> (0 < cols P \<longrightarrow> 0 \<le> r \<and> r < cols P)) \<and>
         ((\<forall>j. 0 \<le> j \<and> j < cols P \<longrightarrow> (\<exists>x. d P_test 0 P j = Inr x)) \<longrightarrow>
              (\<exists>r. nearest_neighbor P P_test d = Inr r)) \<and>
         (rows P_test = rows P \<longrightarrow>
              (\<exists>r. nearest_neighbor P P_test m_dist_L2 = Inr r) \<and>
              (\<exists>r. nearest_neighbor P P_test m_dist_COS = Inr r))"
proof (intro conjI allI impI)
  fix r assume "nearest_neighbor P P_test d = Inr r"
  from nearest_neighbor_range [OF assms this]
  show "r = - 1 \<longleftrightarrow> cols P = 0" and "0 < cols P \<Longrightarrow> 0 \<le> r" and "0 < cols P \<Longrightarrow> r < cols P"
    by simp_all
next
  assume "\<forall>j. 0 \<le> j \<and> j < cols P \<longrightarrow> (\<exists>x. d P_test 0 P j = Inr x)"
  with assms show "\<exists>r. nearest_neighbor P P_test d = Inr r"
    by (rule nearest_neighbor_returns)
next
  assume "rows P_test = rows P"
  then show "\<exists>r. nearest_neighbor P P_test m_dist_L2 = Inr r"
    by (intro nearest_neighbor_returns assms allI impI m_dist_returns)
next
  assume "rows P_test = rows P"
  then show "\<exists>r. nearest_neighbor P P_test m_dist_COS = Inr r"
    by (intro nearest_neighbor_returns assms allI impI m_dist_returns)
qed

theorem nearest_neighbor_index_in_range_witness:
  "0 \<le> cols two_columns \<and>
   (\<exists>r. nearest_neighbor two_columns first_column_query m_dist_L2 = Inr r \<and> 0 \<le> r \<and> r < 2) \<and>
   nearest_neighbor \<lparr>rows = 2, cols = 0, data = []\<rparr> first_column_query m_dist_L2 = Inr (- 1)"
proof -
  have c: "0 \<le> cols two_columns" "cols two_columns = 2"
    and rw: "rows first_column_query = rows two_columns"
    by (simp_all add: two_columns_def first_column_query_def)
  from nearest_neighbor_index_in_range [OF c(1), of first_column_query m_dist_L2] rw
  obtain r where r: "nearest_neighbor two_columns first_column_query m_dist_L2 = Inr r" by blast
  with nearest_neighbor_index_in_range [OF c(1), of first_column_query m_dist_L2] c(2)
  have "0 \<le> r \<and> r < 2" by simp
  moreover
  have e: "0 \<le> cols \<lparr>rows = 2, cols = 0, data = ([]::precision_t list)\<rparr>" by simp
  from nearest_neighbor_index_in_range [OF e, of first_column_query m_dist_L2]
  have "nearest_neighbor \<lparr>rows = 2, cols = 0, data = []\<rparr> first_column_query m_dist_L2 = Inr (- 1)"
    by (auto simp: first_column_query_def)
  ultimately show ?thesis using r c by blast
qed

lemma m_dist_COS_first_column:
  "m_dist_COS first_column_query 0 two_columns 0 = Inr (Fin (- 1))"
  "m_dist_COS first_column_query 0 two_columns 1 = Inr (Fin 0)"
  by (simp_all add: m_dist_COS_def first_column_query_def two_columns_def for_int_def elem_def
      elem_off_def upt_rec zero_precision_t_def Let_def)

lemma m_dist_COS_cblas_first_column:
  "m_dist_COS_cblas first_column_query 0 two_columns 0 = Inr (Fin (- 1))"
  "m_dist_COS_cblas first_column_query 0 two_columns 1 = Inr (Fin 0)"
  by (simp_all add: m_dist_COS_cblas_def first_column_query_def two_columns_def for_int_def elem_def
      elem_off_def upt_rec zero_precision_t_def Let_def)

text \<open>
  C2, at an input where the code departs from it. The query is the first of two
  training columns: its negated cosine to column 0 is \<open>-1\<close>, the least value the metric
  takes, and to column 1 it is \<open>0\<close>. The scan stores \<open>-1\<close> as the running minimum, reads it
  at the next column as "no minimum yet", and returns column 1.
\<close>

theorem nearest_neighbor_COS_sentinel:
  "m_dist_COS first_column_query 0 two_columns 0 = Inr (Fin (- 1)) \<and>
   m_dist_COS first_column_query 0 two_columns 1 = Inr (Fin 0) \<and>
   nearest_neighbor two_columns first_column_query m_dist_COS = Inr 1 \<and>
   nearest_neighbor two_columns first_column_query m_dist_COS_cblas = Inr 1"
proof -
  have c: "cols two_columns = 2" by (simp add: two_columns_def)
  have "nearest_neighbor two_columns first_column_query m_dist_COS = Inr 1"
    by (simp add: nearest_neighbor_def for_int_try_def for_int_def upt_rec and_then_def c
        m_dist_COS_first_column fp_eq_def)
  moreover have "nearest_neighbor two_columns first_column_query m_dist_COS_cblas = Inr 1"
    by (simp add: nearest_neighbor_def for_int_try_def for_int_def upt_rec and_then_def c
        m_dist_COS_cblas_first_column fp_eq_def)
  ultimately show ?thesis by (simp add: m_dist_COS_first_column)
qed

section \<open>Facts about the linear algebra kernel\<close>

subsection \<open>Loops of element writes\<close>

lemma for_int_elem_set:
  fixes ri ci :: "int \<Rightarrow> int" and M :: "'a matrix_t" and h :: "int \<Rightarrow> 'a \<Rightarrow> 'a"
  assumes n: "0 \<le> n"
    and inb: "\<And>k. 0 \<le> k \<Longrightarrow> k < n \<Longrightarrow>
               0 \<le> elem_off M (ri k) (ci k) \<and> elem_off M (ri k) (ci k) < int (length (data M))"
    and inj: "\<And>k k'. 0 \<le> k \<Longrightarrow> k < n \<Longrightarrow> 0 \<le> k' \<Longrightarrow> k' < n \<Longrightarrow>
               elem_off M (ri k) (ci k) = elem_off M (ri k') (ci k') \<Longrightarrow> k = k'"
  defines "R \<equiv> for_int n (\<lambda>k M. elem_set M (ri k) (ci k) (h k (elem M (ri k) (ci k)))) M"
  shows "rows R = rows M \<and> cols R = cols M \<and> length (data R) = length (data M) \<and>
         (\<forall>k. 0 \<le> k \<and> k < n \<longrightarrow> elem R (ri k) (ci k) = h k (elem M (ri k) (ci k))) \<and>
         (\<forall>i j. 0 \<le> elem_off M i j \<and>
                (\<forall>k. 0 \<le> k \<and> k < n \<longrightarrow> elem_off M (ri k) (ci k) \<noteq> elem_off M i j) \<longrightarrow>
                elem R i j = elem M i j)"
proof -
  let ?P = "\<lambda>m R. rows R = rows M \<and> cols R = cols M \<and> length (data R) = length (data M) \<and>
         (\<forall>k. 0 \<le> k \<and> k < m \<longrightarrow> elem R (ri k) (ci k) = h k (elem M (ri k) (ci k))) \<and>
         (\<forall>i j. 0 \<le> elem_off M i j \<and>
                (\<forall>k. 0 \<le> k \<and> k < m \<longrightarrow> elem_off M (ri k) (ci k) \<noteq> elem_off M i j) \<longrightarrow>
                elem R i j = elem M i j)"
  have "?P n (for_int n (\<lambda>k M. elem_set M (ri k) (ci k) (h k (elem M (ri k) (ci k)))) M)"
  proof (rule for_int_invariant [where P = ?P])
    show "?P 0 M" by auto
  next
    fix m :: int and S :: "'a matrix_t"
    assume m: "0 \<le> m" "m < n" and P: "?P m S"
    from P have Pd: "rows S = rows M" "cols S = cols M" "length (data S) = length (data M)"
      by simp_all
    from P have Pk: "elem S (ri k) (ci k) = h k (elem M (ri k) (ci k))" if "0 \<le> k" "k < m" for k
      using that by simp
    from P have Pu: "elem S i j = elem M i j"
      if "0 \<le> elem_off M i j"
         "\<forall>k. 0 \<le> k \<and> k < m \<longrightarrow> elem_off M (ri k) (ci k) \<noteq> elem_off M i j" for i j
      using that by simp
    have off: "\<And>i j. elem_off S i j = elem_off M i j" using Pd by (simp add: elem_off_def)
    have bM: "0 \<le> elem_off M (ri m) (ci m)" "elem_off M (ri m) (ci m) < int (length (data M))"
      using inb [OF m] by simp_all
    have b: "0 \<le> elem_off S (ri m) (ci m)" "elem_off S (ri m) (ci m) < int (length (data S))"
      using bM Pd by (simp_all add: off)
    have fresh: "elem_off M (ri k) (ci k) \<noteq> elem_off M (ri m) (ci m)" if "0 \<le> k" "k < m" for k
    proof
      assume eq: "elem_off M (ri k) (ci k) = elem_off M (ri m) (ci m)"
      have "k < n" using that m by simp
      from inj [OF that(1) this m eq] have "k = m" .
      with that show False by simp
    qed
    have old: "elem S (ri m) (ci m) = elem M (ri m) (ci m)"
      using bM(1) fresh by (intro Pu) simp_all
    let ?S' = "elem_set S (ri m) (ci m) (h m (elem S (ri m) (ci m)))"
    have 1: "elem ?S' (ri k) (ci k) = h k (elem M (ri k) (ci k))" if k: "0 \<le> k" "k < m + 1" for k
    proof (cases "k = m")
      case True
      then show ?thesis using b old by (simp add: elem_elem_set_same)
    next
      case False
      with k have km: "k < m" by simp
      have "elem_off S (ri m) (ci m) \<noteq> elem_off S (ri k) (ci k)"
        using fresh [OF k(1) km] by (simp add: off)
      moreover have "0 \<le> elem_off S (ri k) (ci k)" using inb [of k] k km m by (simp add: off)
      ultimately have "elem ?S' (ri k) (ci k) = elem S (ri k) (ci k)"
        using b(1) by (intro elem_elem_set_other)
      then show ?thesis using Pk [OF k(1) km] by simp
    qed
    have 2: "elem ?S' i j = elem M i j"
      if u: "0 \<le> elem_off M i j"
        "\<forall>k. 0 \<le> k \<and> k < m + 1 \<longrightarrow> elem_off M (ri k) (ci k) \<noteq> elem_off M i j" for i j
    proof -
      have "elem_off S (ri m) (ci m) \<noteq> elem_off S i j" using u(2) m by (simp add: off)
      moreover have "0 \<le> elem_off S i j" using u(1) by (simp add: off)
      ultimately have "elem ?S' i j = elem S i j"
        using b(1) by (intro elem_elem_set_other)
      moreover have "\<forall>k. 0 \<le> k \<and> k < m \<longrightarrow> elem_off M (ri k) (ci k) \<noteq> elem_off M i j"
        using u(2) by simp
      ultimately show ?thesis using Pu [OF u(1)] by simp
    qed
    show "?P (m + 1) ?S'"
    proof (intro conjI allI impI)
      fix k assume "0 \<le> k \<and> k < m + 1"
      then show "elem ?S' (ri k) (ci k) = h k (elem M (ri k) (ci k))" using 1 by simp
    next
      fix i j
      assume "0 \<le> elem_off M i j \<and>
                (\<forall>k. 0 \<le> k \<and> k < m + 1 \<longrightarrow> elem_off M (ri k) (ci k) \<noteq> elem_off M i j)"
      then show "elem ?S' i j = elem M i j" using 2 by blast
    qed (simp_all add: Pd)
  qed (rule n)
  then show ?thesis by (simp add: R_def)
qed

lemma m_valid_offsets:
  assumes "m_valid M" "0 \<le> i" "i < rows M" "0 \<le> j" "j < cols M"
  shows "0 \<le> elem_off M i j \<and> elem_off M i j < int (length (data M))"
  using elem_off_bounds [OF assms] assms(1) by (simp add: m_valid_def)

lemma m_eqI:
  fixes A B :: "'a matrix_t"
  assumes "m_valid A" "m_valid B" "rows A = rows B" "cols A = cols B"
    and el: "\<And>i j. 0 \<le> i \<Longrightarrow> i < rows A \<Longrightarrow> 0 \<le> j \<Longrightarrow> j < cols A \<Longrightarrow> elem A i j = elem B i j"
  shows "A = B"
proof -
  have len: "length (data A) = length (data B)"
    using assms(1-4) by (simp add: m_valid_length)
  have "data A = data B"
  proof (rule nth_equalityI [OF len])
    fix k assume k: "k < length (data A)"
    then have kk: "int k < rows A * cols A" using assms(1) by (simp add: m_valid_def)
    have r0: "0 \<le> rows A" "0 \<le> cols A" using assms(1) by (simp_all add: m_valid_def)
    have rp: "0 < rows A"
    proof (rule ccontr)
      assume "\<not> 0 < rows A"
      with r0 have "rows A = 0" by simp
      with kk show False by simp
    qed
    let ?i = "int k mod rows A" and ?j = "int k div rows A"
    have i: "0 \<le> ?i" "?i < rows A" using rp by simp_all
    have j: "0 \<le> ?j" "?j < cols A"
      using rp kk by (simp_all add: pos_imp_zdiv_nonneg_iff int_div_less_bound mult.commute)
    have "nat (elem_off A ?i ?j) = k" by (simp add: elem_off_def)
    moreover have "nat (elem_off B ?i ?j) = k" using assms(3) by (simp add: elem_off_def)
    ultimately show "data A ! k = data B ! k"
      using el [OF i j] by (simp add: elem_def)
  qed
  then show ?thesis using assms(3,4) by simp
qed

subsection \<open>Finite entries and sums\<close>

lemma fp_finite_val: "fp_finite x \<Longrightarrow> x = Fin (fp_val x)"
  by (cases x) simp_all

lemma m_finite_elem:
  assumes "m_valid M" "m_finite M" "0 \<le> i" "i < rows M" "0 \<le> j" "j < cols M"
  shows "elem M i j = Fin (fp_val (elem M i j))"
proof -
  have "nat (elem_off M i j) < length (data M)"
    using m_valid_offsets [OF assms(1,3-6)] by linarith
  then have "elem M i j \<in> set (data M)" by (simp add: elem_def)
  with assms(2) have "fp_finite (elem M i j)" by (simp add: m_finite_def list_all_iff)
  then show ?thesis by (rule fp_finite_val)
qed

lemma int_interval_step: "0 \<le> m \<Longrightarrow> {0..<m + 1} = insert m {0..<m::int}"
  by auto

lemma for_int_sum_Fin:
  assumes n: "0 \<le> n" and t: "\<And>l. 0 \<le> l \<Longrightarrow> l < n \<Longrightarrow> t l = Fin (r l)"
  shows "for_int n (\<lambda>l acc. acc + t l) (Fin a) = Fin (a + (\<Sum>l\<in>{0..<n}. r l))"
proof (rule for_int_invariant [where P = "\<lambda>m acc. acc = Fin (a + (\<Sum>l\<in>{0..<m}. r l))"])
  show "Fin a = Fin (a + (\<Sum>l\<in>{0..<0}. r l))" by simp
next
  fix k :: int and acc assume k: "0 \<le> k" "k < n" and acc: "acc = Fin (a + (\<Sum>l\<in>{0..<k}. r l))"
  show "acc + t k = Fin (a + (\<Sum>l\<in>{0..<k + 1}. r l))"
    using k acc t [OF k] by (simp add: int_interval_step)
qed (rule n)

subsection \<open>The identity matrix\<close>

lemma m_zeros_fields [simp]:
  "rows (m_zeros r c) = r" "cols (m_zeros r c) = c" "length (data (m_zeros r c)) = nat (r * c)"
  by (simp_all add: m_zeros_def)

lemma m_zeros_valid:
  "0 \<le> r \<Longrightarrow> r < 2 ^ 31 \<Longrightarrow> 0 \<le> c \<Longrightarrow> c < 2 ^ 31 \<Longrightarrow> r * c < 2 ^ 31 \<Longrightarrow> m_valid (m_zeros r c)"
  by (simp add: m_valid_def m_zeros_def)

lemma m_zeros_elem:
  assumes "m_valid (m_zeros r c :: ('a::zero) matrix_t)" "0 \<le> i" "i < r" "0 \<le> j" "j < c"
  shows "elem (m_zeros r c :: 'a matrix_t) i j = 0"
proof -
  have "nat (elem_off (m_zeros r c :: 'a matrix_t) i j) < nat (r * c)"
    using m_valid_offsets [OF assms(1), of i j] assms(2-5) by simp
  then show ?thesis by (simp add: elem_def m_zeros_def)
qed

lemma m_identity_elem:
  assumes r: "0 \<le> r" "r * r < 2 ^ 31"
  shows "m_valid (m_identity r :: ('a::{zero,one}) matrix_t)"
    and "rows (m_identity r :: 'a matrix_t) = r"
    and "cols (m_identity r :: 'a matrix_t) = r"
    and "\<And>i j. 0 \<le> i \<Longrightarrow> i < r \<Longrightarrow> 0 \<le> j \<Longrightarrow> j < r \<Longrightarrow>
           elem (m_identity r :: 'a matrix_t) i j = (if i = j then 1 else 0)"
proof -
  let ?Z = "m_zeros r r :: 'a matrix_t"
  have rs: "r < 2 ^ 31"
  proof (rule ccontr)
    assume "\<not> r < 2 ^ 31"
    then have "2 ^ 31 \<le> r" by simp
    then have "2 ^ 31 * 1 \<le> r * r" using r(1) by (intro mult_mono) simp_all
    with r(2) show False by simp
  qed
  have vZ: "m_valid ?Z" using r rs by (intro m_zeros_valid)
  have id: "(m_identity r :: 'a matrix_t) = for_int r (\<lambda>k M. elem_set M k k 1) ?Z"
    by (simp add: m_identity_def m_zeros_def)
  have inb: "0 \<le> elem_off ?Z k k \<and> elem_off ?Z k k < int (length (data ?Z))"
    if "0 \<le> k" "k < r" for k
    using m_valid_offsets [OF vZ, of k k] that by simp
  have inj: "k = k'" if "0 \<le> k" "k < r" "0 \<le> k'" "k' < r" "elem_off ?Z k k = elem_off ?Z k' k'" for k k'
    using elem_off_inj [of k r k' k k'] that by (simp add: elem_off_def)
  have L: "rows (m_identity r :: 'a matrix_t) = rows ?Z \<and> cols (m_identity r :: 'a matrix_t) = cols ?Z \<and>
         length (data (m_identity r :: 'a matrix_t)) = length (data ?Z) \<and>
         (\<forall>k. 0 \<le> k \<and> k < r \<longrightarrow> elem (m_identity r :: 'a matrix_t) k k = 1) \<and>
         (\<forall>i j. 0 \<le> elem_off ?Z i j \<and>
                (\<forall>k. 0 \<le> k \<and> k < r \<longrightarrow> elem_off ?Z k k \<noteq> elem_off ?Z i j) \<longrightarrow>
                elem (m_identity r :: 'a matrix_t) i j = elem ?Z i j)"
    unfolding id
    by (rule for_int_elem_set [where h = "\<lambda>k x. 1" and ri = "\<lambda>k. k" and ci = "\<lambda>k. k", OF r(1) inb inj])
  from L show rw: "rows (m_identity r :: 'a matrix_t) = r" and cl: "cols (m_identity r :: 'a matrix_t) = r"
    by simp_all
  from L rw cl vZ show "m_valid (m_identity r :: 'a matrix_t)"
    by (simp add: m_valid_def)
  fix i j assume ij: "0 \<le> i" "i < r" "0 \<le> j" "j < r"
  show "elem (m_identity r :: 'a matrix_t) i j = (if i = j then 1 else 0)"
  proof (cases "i = j")
    case True
    with L ij show ?thesis by simp
  next
    case False
    have o: "0 \<le> elem_off ?Z i j" using m_valid_offsets [OF vZ, of i j] ij by simp
    have "\<forall>k. 0 \<le> k \<and> k < r \<longrightarrow> elem_off ?Z k k \<noteq> elem_off ?Z i j"
    proof (intro allI impI notI)
      fix k assume k: "0 \<le> k \<and> k < r" and eq: "elem_off ?Z k k = elem_off ?Z i j"
      from elem_off_inj [of k r i k j] k ij eq have "k = i \<and> k = j" by (simp add: elem_off_def)
      with False show False by simp
    qed
    with L o have "elem (m_identity r :: 'a matrix_t) i j = elem ?Z i j" by blast
    with False show ?thesis using m_zeros_elem [OF vZ ij] by simp
  qed
qed

subsection \<open>The BLAS matrix product\<close>

lemma cblas_dgemm_length [simp]:
  "length (cblas_dgemm kern ta tb m n k alpha A sa B sb beta C sc) = length C"
  by (simp add: cblas_dgemm_def)

lemma cblas_dgemm_nth:
  assumes ij: "0 \<le> i" "i < m" "0 \<le> j" "j < n" and len: "int (length C) = m * n"
  shows "cblas_dgemm kern ta tb m n k alpha A sa B sb beta C m ! nat (i + j * m) =
           kern alpha (map (\<lambda>l. dgemm_op ta A sa i l) (map int [0..<nat k]))
                      (map (\<lambda>l. dgemm_op tb B sb l j) (map int [0..<nat k]))
                beta (C ! nat (i + j * m))"
proof -
  have "i + j * m < m + j * m" using ij by simp
  also have "\<dots> = (j + 1) * m" by (simp add: algebra_simps)
  also have "\<dots> \<le> n * m" using ij by (intro mult_right_mono) auto
  finally have lt: "i + j * m < int (length C)" using len by (simp add: mult.commute)
  have nn: "0 \<le> i + j * m" using ij by simp
  have idx: "nat (i + j * m) < length C" using lt nn by linarith
  have md: "(i + j * m) mod m = i" "(i + j * m) div m = j" using ij by simp_all
  show ?thesis
    using idx nn ij by (simp add: cblas_dgemm_def md Let_def)
qed

lemma dgemm_op_elem:
  "dgemm_op CblasNoTrans (data A) (rows A) i l = elem A i l"
  "dgemm_op CblasTrans (data A) (rows A) i l = elem A l i"
  by (simp_all add: dgemm_op_def elem_def elem_off_def)

text \<open>
  The element \<open>(i, j)\<close> of the product of a matrix with itself, one of the two
  transposed, into a zero matrix of order \<open>m\<close>.
\<close>

lemma gram_elem:
  fixes A :: "('a::zero) matrix_t"
  assumes ij: "0 \<le> i" "i < m" "0 \<le> j" "j < m" and m: "m < 2 ^ 31" "m * m < 2 ^ 31"
  shows "elem ((m_zeros m m)\<lparr>data := cblas_dgemm kern ta tb m m k alpha (data A) (rows A) (data A) (rows A)
                                 beta (data (m_zeros m m)) m\<rparr>) i j
         = kern alpha (map (\<lambda>l. dgemm_op ta (data A) (rows A) i l) (map int [0..<nat k]))
                      (map (\<lambda>l. dgemm_op tb (data A) (rows A) l j) (map int [0..<nat k]))
                beta 0"
proof -
  let ?Z = "m_zeros m m :: 'a matrix_t"
  have m0: "0 \<le> m" using ij by simp
  have vZ: "m_valid ?Z" using m0 m by (intro m_zeros_valid)
  have lenZ: "int (length (data ?Z)) = m * m" using vZ by (simp add: m_valid_def)
  have z: "data ?Z ! nat (i + j * m) = 0"
    using m_zeros_elem [OF vZ ij] by (simp add: elem_def elem_off_def)
  have "elem (?Z\<lparr>data := cblas_dgemm kern ta tb m m k alpha (data A) (rows A) (data A) (rows A) beta (data ?Z) m\<rparr>) i j
        = cblas_dgemm kern ta tb m m k alpha (data A) (rows A) (data A) (rows A) beta (data ?Z) m ! nat (i + j * m)"
    by (simp add: elem_def elem_off_def)
  also have "\<dots> = kern alpha (map (\<lambda>l. dgemm_op ta (data A) (rows A) i l) (map int [0..<nat k]))
                      (map (\<lambda>l. dgemm_op tb (data A) (rows A) l j) (map int [0..<nat k]))
                beta 0"
    using cblas_dgemm_nth [OF ij lenZ, of kern ta tb k alpha "data A" "rows A" "data A" "rows A" beta]
    by (simp add: z)
  finally show ?thesis .
qed

subsection \<open>Sums of lists\<close>

lemma for_int_fp_sum:
  "for_int n (\<lambda>l s. s + f l) 0 = fp_sum (map f (map int [0..<nat n]))"
proof -
  have "fold (\<lambda>l s. s + f l) ls s0 = foldl (+) s0 (map f ls)" for ls :: "int list" and s0
    by (induction ls arbitrary: s0) simp_all
  then show ?thesis by (simp add: for_int_def fp_sum_def)
qed

lemma fp_sum_Fin:
  assumes "0 \<le> n"
  shows "fp_sum (map (\<lambda>l. Fin (r l)) (map int [0..<nat n])) = Fin (\<Sum>l\<in>{0..<n}. r l)"
proof -
  have "for_int n (\<lambda>l acc. acc + Fin (r l)) (Fin 0) = Fin (0 + (\<Sum>l\<in>{0..<n}. r l))"
    using assms by (intro for_int_sum_Fin) simp_all
  then show ?thesis
    using for_int_fp_sum [of n "\<lambda>l. Fin (r l)"] by (simp add: zero_precision_t_def)
qed

lemma dgemm_exact_Fin:
  assumes "0 \<le> n"
  shows "dgemm_exact 1 (map (\<lambda>l. Fin (a l)) (map int [0..<nat n]))
                       (map (\<lambda>l. Fin (b l)) (map int [0..<nat n])) 0 c0
         = Fin (\<Sum>l\<in>{0..<n}. a l * b l) + 0 * c0"
proof -
  have "map (\<lambda>(x, y). x * y) (zip (map (\<lambda>l. Fin (a l)) (map int [0..<nat n]))
                                    (map (\<lambda>l. Fin (b l)) (map int [0..<nat n])))
        = map (\<lambda>l. Fin (a l * b l)) (map int [0..<nat n])"
    by (simp add: zip_map_map zip_same_conv_map comp_def)
  then have "foldl (+) 0 (map (\<lambda>(x, y). x * y) (zip (map (\<lambda>l. Fin (a l)) (map int [0..<nat n]))
                                    (map (\<lambda>l. Fin (b l)) (map int [0..<nat n]))))
        = Fin (\<Sum>l\<in>{0..<n}. a l * b l)"
    using fp_sum_Fin [OF assms, of "\<lambda>l. a l * b l"] by (simp add: fp_sum_def)
  then show ?thesis by (simp add: dgemm_exact_def one_precision_t_def)
qed

lemma map_int_upt_cong:
  assumes "\<And>l. 0 \<le> l \<Longrightarrow> l < n \<Longrightarrow> f l = h l"
  shows "map f (map int [0..<nat n]) = map h (map int [0..<nat n])"
  using assms by simp

subsection \<open>The product in exact arithmetic\<close>

lemma m_product_elem:
  assumes vA: "m_valid A" and vB: "m_valid B"
    and eA: "\<And>i l. 0 \<le> i \<Longrightarrow> i < rows A \<Longrightarrow> 0 \<le> l \<Longrightarrow> l < cols A \<Longrightarrow> elem A i l = Fin (a i l)"
    and eB: "\<And>l j. 0 \<le> l \<Longrightarrow> l < rows B \<Longrightarrow> 0 \<le> j \<Longrightarrow> j < cols B \<Longrightarrow> elem B l j = Fin (b l j)"
    and inner: "cols A = rows B" and small: "rows A * cols B < 2 ^ 31"
  shows "\<exists>C. m_product dgemm_exact A B = Inr C \<and> m_valid C \<and> rows C = rows A \<and> cols C = cols B \<and>
           (\<forall>i j. 0 \<le> i \<and> i < rows A \<and> 0 \<le> j \<and> j < cols B \<longrightarrow>
              elem C i j = Fin (\<Sum>l\<in>{0..<cols A}. a i l * b l j))"
proof -
  let ?Z = "m_zeros (rows A) (cols B) :: precision_t matrix_t"
  let ?C = "?Z\<lparr>data := cblas_dgemm dgemm_exact CblasNoTrans CblasNoTrans (rows A) (cols B) (cols A)
                    1 (data A) (rows A) (data B) (rows B) 0 (data ?Z) (rows ?Z)\<rparr>"
  have dims: "0 \<le> rows A" "rows A < 2 ^ 31" "0 \<le> cols B" "cols B < 2 ^ 31" "0 \<le> cols A"
    using vA vB by (simp_all add: m_valid_def)
  have vZ: "m_valid ?Z" using dims small by (intro m_zeros_valid)
  have p: "m_product dgemm_exact A B = Inr ?C" using inner by (simp add: m_product_def Let_def)
  have vC: "m_valid ?C" using vZ by (simp add: m_valid_def)
  have el: "elem ?C i j = Fin (\<Sum>l\<in>{0..<cols A}. a i l * b l j)"
    if ij: "0 \<le> i" "i < rows A" "0 \<le> j" "j < cols B" for i j
  proof -
    have lenZ: "int (length (data ?Z)) = rows A * cols B" using vZ by (simp add: m_valid_def)
    have z: "data ?Z ! nat (i + j * rows A) = 0"
      using m_zeros_elem [OF vZ ij] by (simp add: elem_def elem_off_def)
    have ra: "map (\<lambda>l. elem A i l) (map int [0..<nat (cols A)])
                = map (\<lambda>l. Fin (a i l)) (map int [0..<nat (cols A)])"
      by (rule map_int_upt_cong) (rule eA [OF ij(1,2)])
    have cb: "map (\<lambda>l. elem B l j) (map int [0..<nat (cols A)])
                = map (\<lambda>l. Fin (b l j)) (map int [0..<nat (cols A)])"
      by (rule map_int_upt_cong) (use eB ij inner in simp)
    have "elem ?C i j = cblas_dgemm dgemm_exact CblasNoTrans CblasNoTrans (rows A) (cols B) (cols A)
                    1 (data A) (rows A) (data B) (rows B) 0 (data ?Z) (rows A) ! nat (i + j * rows A)"
      by (simp add: elem_def elem_off_def)
    also have "\<dots> = dgemm_exact 1 (map (\<lambda>l. elem A i l) (map int [0..<nat (cols A)]))
                                    (map (\<lambda>l. elem B l j) (map int [0..<nat (cols A)])) 0 0"
      using cblas_dgemm_nth [OF ij lenZ, of dgemm_exact CblasNoTrans CblasNoTrans "cols A" 1 "data A" "rows A" "data B" "rows B" 0]
      by (simp add: dgemm_op_elem z)
    also have "\<dots> = Fin (\<Sum>l\<in>{0..<cols A}. a i l * b l j) + 0 * 0"
      unfolding ra cb by (rule dgemm_exact_Fin [OF dims(5)])
    finally show ?thesis by (simp add: zero_precision_t_def)
  qed
  show ?thesis using p vC el by (intro exI [of _ ?C]) simp
qed

text \<open>
  In exact arithmetic, with a product that adds up all the terms, the product of a matrix
  of finite entries with the identity is the matrix: each inner product is one entry
  times one plus entries times zero.
\<close>

lemma m_product_identity_exact:
  assumes v: "m_valid M" and f: "m_finite M" and small: "cols M * cols M < 2 ^ 31"
  shows "m_product dgemm_exact M (m_identity (cols M)) = Inr M"
proof -
  let ?I = "m_identity (cols M) :: precision_t matrix_t"
  have c0: "0 \<le> cols M" using v by (simp add: m_valid_def)
  note I = m_identity_elem [OF c0 small, where 'a = precision_t]
  have eI: "elem ?I l j = Fin (if l = j then 1 else 0)"
    if "0 \<le> l" "l < rows ?I" "0 \<le> j" "j < cols ?I" for l j
    using I(4) [of l j] that I(2,3) by (simp add: one_precision_t_def zero_precision_t_def)
  have eM: "elem M i l = Fin (fp_val (elem M i l))"
    if "0 \<le> i" "i < rows M" "0 \<le> l" "l < cols M" for i l
    using v f that by (rule m_finite_elem)
  have "rows M * cols ?I < 2 ^ 31" using v I(3) by (simp add: m_valid_def)
  from m_product_elem [OF v I(1) eM eI _ this] I(2,3)
  obtain C where C: "m_product dgemm_exact M ?I = Inr C" "m_valid C" "rows C = rows M" "cols C = cols M"
    and el: "\<forall>i j. 0 \<le> i \<and> i < rows M \<and> 0 \<le> j \<and> j < cols M \<longrightarrow>
              elem C i j = Fin (\<Sum>l\<in>{0..<cols M}. fp_val (elem M i l) * (if l = j then 1 else 0))"
    by auto
  have "C = M"
  proof (rule m_eqI [OF C(2) v C(3,4)])
    fix i j assume ij: "0 \<le> i" "i < rows C" "0 \<le> j" "j < cols C"
    have "(\<Sum>l\<in>{0..<cols M}. fp_val (elem M i l) * (if l = j then 1 else 0))
            = (\<Sum>l\<in>{0..<cols M}. if l = j then fp_val (elem M i l) else 0)"
      by (intro sum.cong) simp_all
    also have "\<dots> = fp_val (elem M i j)" using ij C(4) by (simp add: sum.delta')
    finally have "elem C i j = Fin (fp_val (elem M i j))" using el ij C(3,4) by simp
    then show "elem C i j = elem M i j" using eM [of i j] ij C(3,4) by simp
  qed
  with C(1) show ?thesis by simp
qed

subsection \<open>Nested loops of element writes\<close>

lemma for_int_nested_elem_set:
  fixes ri ci :: "int \<Rightarrow> int \<Rightarrow> int" and M :: "'a matrix_t" and h :: "int \<Rightarrow> int \<Rightarrow> 'a \<Rightarrow> 'a"
  assumes na: "0 \<le> na" and nb: "0 \<le> nb"
    and inb: "\<And>a b. 0 \<le> a \<Longrightarrow> a < na \<Longrightarrow> 0 \<le> b \<Longrightarrow> b < nb \<Longrightarrow>
               0 \<le> elem_off M (ri a b) (ci a b) \<and> elem_off M (ri a b) (ci a b) < int (length (data M))"
    and inj: "\<And>a b a' b'. 0 \<le> a \<Longrightarrow> a < na \<Longrightarrow> 0 \<le> b \<Longrightarrow> b < nb \<Longrightarrow>
               0 \<le> a' \<Longrightarrow> a' < na \<Longrightarrow> 0 \<le> b' \<Longrightarrow> b' < nb \<Longrightarrow>
               elem_off M (ri a b) (ci a b) = elem_off M (ri a' b') (ci a' b') \<Longrightarrow> a = a' \<and> b = b'"
  defines "R \<equiv> for_int na (\<lambda>a. for_int nb (\<lambda>b M.
                  elem_set M (ri a b) (ci a b) (h a b (elem M (ri a b) (ci a b))))) M"
  shows "rows R = rows M \<and> cols R = cols M \<and> length (data R) = length (data M) \<and>
         (\<forall>a b. 0 \<le> a \<and> a < na \<and> 0 \<le> b \<and> b < nb \<longrightarrow>
            elem R (ri a b) (ci a b) = h a b (elem M (ri a b) (ci a b)))"
proof -
  let ?U = "\<lambda>m i j. \<forall>a b. 0 \<le> a \<and> a < m \<and> 0 \<le> b \<and> b < nb \<longrightarrow>
                  elem_off M (ri a b) (ci a b) \<noteq> elem_off M i j"
  let ?P = "\<lambda>m S. rows S = rows M \<and> cols S = cols M \<and> length (data S) = length (data M) \<and>
         (\<forall>a b. 0 \<le> a \<and> a < m \<and> 0 \<le> b \<and> b < nb \<longrightarrow>
            elem S (ri a b) (ci a b) = h a b (elem M (ri a b) (ci a b))) \<and>
         (\<forall>i j. 0 \<le> elem_off M i j \<and> ?U m i j \<longrightarrow> elem S i j = elem M i j)"
  have "?P na (for_int na (\<lambda>a. for_int nb (\<lambda>b M.
                  elem_set M (ri a b) (ci a b) (h a b (elem M (ri a b) (ci a b))))) M)"
  proof (rule for_int_invariant [where P = ?P])
    show "?P 0 M" by auto
  next
    fix m :: int and S :: "'a matrix_t"
    assume m: "0 \<le> m" "m < na" and P: "?P m S"
    from P have Pd: "rows S = rows M" "cols S = cols M" "length (data S) = length (data M)"
      by simp_all
    from P have Pk: "elem S (ri a b) (ci a b) = h a b (elem M (ri a b) (ci a b))"
      if "0 \<le> a" "a < m" "0 \<le> b" "b < nb" for a b
      using that by simp
    from P have Pu: "elem S i j = elem M i j" if "0 \<le> elem_off M i j" "?U m i j" for i j
      using that by simp
    have off: "\<And>i j. elem_off S i j = elem_off M i j" using Pd by (simp add: elem_off_def)
    let ?S' = "for_int nb (\<lambda>b M. elem_set M (ri m b) (ci m b) (h m b (elem M (ri m b) (ci m b)))) S"
    have inb': "0 \<le> elem_off S (ri m b) (ci m b) \<and> elem_off S (ri m b) (ci m b) < int (length (data S))"
      if "0 \<le> b" "b < nb" for b
      using inb [OF m that] Pd by (simp add: off)
    have inj': "b = b'"
      if "0 \<le> b" "b < nb" "0 \<le> b'" "b' < nb"
         "elem_off S (ri m b) (ci m b) = elem_off S (ri m b') (ci m b')" for b b'
      using inj [OF m that(1,2) m that(3,4)] that(5) by (simp add: off)
    have I: "rows ?S' = rows S \<and> cols ?S' = cols S \<and> length (data ?S') = length (data S) \<and>
         (\<forall>k. 0 \<le> k \<and> k < nb \<longrightarrow> elem ?S' (ri m k) (ci m k) = h m k (elem S (ri m k) (ci m k))) \<and>
         (\<forall>i j. 0 \<le> elem_off S i j \<and>
                (\<forall>k. 0 \<le> k \<and> k < nb \<longrightarrow> elem_off S (ri m k) (ci m k) \<noteq> elem_off S i j) \<longrightarrow>
                elem ?S' i j = elem S i j)"
      by (rule for_int_elem_set [where ri = "ri m" and ci = "ci m" and h = "h m", OF nb inb' inj'])
    from I have Id: "rows ?S' = rows M" "cols ?S' = cols M" "length (data ?S') = length (data M)"
      using Pd by simp_all
    from I have Ik: "elem ?S' (ri m k) (ci m k) = h m k (elem S (ri m k) (ci m k))"
      if "0 \<le> k" "k < nb" for k
      using that by simp
    from I have Iu: "elem ?S' i j = elem S i j"
      if "0 \<le> elem_off M i j"
         "\<forall>k. 0 \<le> k \<and> k < nb \<longrightarrow> elem_off M (ri m k) (ci m k) \<noteq> elem_off M i j" for i j
      using that by (simp add: off)
    have fresh: "?U m (ri m b) (ci m b)" if "0 \<le> b" "b < nb" for b
    proof (intro allI impI notI)
      fix a b' assume r: "0 \<le> a \<and> a < m \<and> 0 \<le> b' \<and> b' < nb"
        and eq: "elem_off M (ri a b') (ci a b') = elem_off M (ri m b) (ci m b)"
      have "a < na" using r m by simp
      from inj [of a b' m b] r this m that eq have "a = m" by simp
      with r show False by simp
    qed
    have 1: "elem ?S' (ri a b) (ci a b) = h a b (elem M (ri a b) (ci a b))"
      if ab: "0 \<le> a" "a < m + 1" "0 \<le> b" "b < nb" for a b
    proof (cases "a = m")
      case True
      have "elem S (ri m b) (ci m b) = elem M (ri m b) (ci m b)"
        using inb [OF m ab(3,4)] fresh [OF ab(3,4)] by (intro Pu) simp_all
      with Ik [OF ab(3,4)] True show ?thesis by simp
    next
      case False
      with ab have am: "a < m" by simp
      then have ana: "a < na" using m by simp
      have "\<forall>k. 0 \<le> k \<and> k < nb \<longrightarrow> elem_off M (ri m k) (ci m k) \<noteq> elem_off M (ri a b) (ci a b)"
      proof (intro allI impI notI)
        fix k assume k: "0 \<le> k \<and> k < nb"
          and eq: "elem_off M (ri m k) (ci m k) = elem_off M (ri a b) (ci a b)"
        from inj [of m k a b] m k ab(1,3,4) ana eq have "m = a" by simp
        with False show False by simp
      qed
      moreover have "0 \<le> elem_off M (ri a b) (ci a b)" using inb [OF ab(1) ana ab(3,4)] by simp
      ultimately have "elem ?S' (ri a b) (ci a b) = elem S (ri a b) (ci a b)" by (intro Iu)
      with Pk [OF ab(1) am ab(3,4)] show ?thesis by simp
    qed
    have 2: "elem ?S' i j = elem M i j" if u: "0 \<le> elem_off M i j" "?U (m + 1) i j" for i j
    proof -
      have "\<forall>k. 0 \<le> k \<and> k < nb \<longrightarrow> elem_off M (ri m k) (ci m k) \<noteq> elem_off M i j"
        using u(2) m by simp
      with u(1) have "elem ?S' i j = elem S i j" by (intro Iu)
      moreover have "?U m i j" using u(2) by simp
      ultimately show ?thesis using Pu [OF u(1)] by simp
    qed
    show "?P (m + 1) ?S'"
    proof (intro conjI allI impI)
      fix a b assume "0 \<le> a \<and> a < m + 1 \<and> 0 \<le> b \<and> b < nb"
      then show "elem ?S' (ri a b) (ci a b) = h a b (elem M (ri a b) (ci a b))" using 1 by simp
    next
      fix i j assume "0 \<le> elem_off M i j \<and> ?U (m + 1) i j"
      then show "elem ?S' i j = elem M i j" using 2 by blast
    qed (simp_all add: Id)
  qed (rule na)
  then show ?thesis by (simp add: R_def)
qed

lemma m_valid_same_shape:
  "m_valid M \<Longrightarrow> rows R = rows M \<Longrightarrow> cols R = cols M \<Longrightarrow> length (data R) = length (data M) \<Longrightarrow>
   m_valid R"
  by (simp add: m_valid_def)

lemma row_major_cells:
  fixes M :: "'a matrix_t" and h :: "int \<Rightarrow> int \<Rightarrow> 'a \<Rightarrow> 'a"
  assumes v: "m_valid M"
  defines "R \<equiv> for_int (rows M) (\<lambda>i. for_int (cols M) (\<lambda>j M. elem_set M i j (h i j (elem M i j)))) M"
  shows "m_valid R \<and> rows R = rows M \<and> cols R = cols M \<and>
         (\<forall>i j. 0 \<le> i \<and> i < rows M \<and> 0 \<le> j \<and> j < cols M \<longrightarrow> elem R i j = h i j (elem M i j))"
proof -
  have d: "0 \<le> rows M" "0 \<le> cols M" using v by (simp_all add: m_valid_def)
  have inb: "0 \<le> elem_off M a b \<and> elem_off M a b < int (length (data M))"
    if "0 \<le> a" "a < rows M" "0 \<le> b" "b < cols M" for a b
    using v that by (rule m_valid_offsets)
  have inj: "a = a' \<and> b = b'"
    if "0 \<le> a" "a < rows M" "0 \<le> b" "b < cols M" "0 \<le> a'" "a' < rows M" "0 \<le> b'" "b' < cols M"
       "elem_off M a b = elem_off M a' b'" for a b a' b'
    using elem_off_inj [of a "rows M" a' b b'] that by (simp add: elem_off_def)
  have "rows R = rows M \<and> cols R = cols M \<and> length (data R) = length (data M) \<and>
         (\<forall>a b. 0 \<le> a \<and> a < rows M \<and> 0 \<le> b \<and> b < cols M \<longrightarrow> elem R a b = h a b (elem M a b))"
    unfolding R_def
    by (rule for_int_nested_elem_set [where ri = "\<lambda>a b. a" and ci = "\<lambda>a b. b" and h = h, OF d inb inj])
  then show ?thesis using v by (simp add: m_valid_same_shape)
qed

lemma column_major_cells:
  fixes M :: "'a matrix_t" and h :: "int \<Rightarrow> int \<Rightarrow> 'a \<Rightarrow> 'a"
  assumes v: "m_valid M"
  defines "R \<equiv> for_int (cols M) (\<lambda>i. for_int (rows M) (\<lambda>j M. elem_set M j i (h i j (elem M j i)))) M"
  shows "m_valid R \<and> rows R = rows M \<and> cols R = cols M \<and>
         (\<forall>i j. 0 \<le> i \<and> i < cols M \<and> 0 \<le> j \<and> j < rows M \<longrightarrow> elem R j i = h i j (elem M j i))"
proof -
  have d: "0 \<le> cols M" "0 \<le> rows M" using v by (simp_all add: m_valid_def)
  have inb: "0 \<le> elem_off M b a \<and> elem_off M b a < int (length (data M))"
    if "0 \<le> a" "a < cols M" "0 \<le> b" "b < rows M" for a b
    using v that(3,4,1,2) by (rule m_valid_offsets)
  have inj: "a = a' \<and> b = b'"
    if "0 \<le> a" "a < cols M" "0 \<le> b" "b < rows M" "0 \<le> a'" "a' < cols M" "0 \<le> b'" "b' < rows M"
       "elem_off M b a = elem_off M b' a'" for a b a' b'
    using elem_off_inj [of b "rows M" b' a a'] that by (simp add: elem_off_def)
  have "rows R = rows M \<and> cols R = cols M \<and> length (data R) = length (data M) \<and>
         (\<forall>a b. 0 \<le> a \<and> a < cols M \<and> 0 \<le> b \<and> b < rows M \<longrightarrow> elem R b a = h a b (elem M b a))"
    unfolding R_def
    by (rule for_int_nested_elem_set [where ri = "\<lambda>a b. b" and ci = "\<lambda>a b. a" and h = h, OF d inb inj])
  then show ?thesis using v by (simp add: m_valid_same_shape)
qed

lemma m_elem_mult_elem:
  assumes "m_valid M"
  shows "m_valid (m_elem_mult M c) \<and> rows (m_elem_mult M c) = rows M \<and>
         cols (m_elem_mult M c) = cols M \<and>
         (\<forall>i j. 0 \<le> i \<and> i < rows M \<and> 0 \<le> j \<and> j < cols M \<longrightarrow>
                elem (m_elem_mult M c) i j = elem M i j * c)"
  unfolding m_elem_mult_def
  by (rule row_major_cells [OF assms, where h = "\<lambda>i j x. x * c"])

lemma m_subtract_columns_cblas_elem:
  assumes "m_valid M"
  shows "m_valid (m_subtract_columns_cblas M a) \<and> rows (m_subtract_columns_cblas M a) = rows M \<and>
         cols (m_subtract_columns_cblas M a) = cols M \<and>
         (\<forall>i j. 0 \<le> i \<and> i < cols M \<and> 0 \<le> j \<and> j < rows M \<longrightarrow>
                elem (m_subtract_columns_cblas M a) j i = elem M j i - elem a j 0)"
  unfolding m_subtract_columns_cblas_def
  by (rule column_major_cells [OF assms, where h = "\<lambda>i j x. x - elem a j 0"])

lemma m_subtract_rows_elem:
  assumes "m_valid M" "cols M = cols a" "rows a = 1"
  shows "\<exists>R. m_subtract_rows M a = Inr R \<and> m_valid R \<and> rows R = rows M \<and> cols R = cols M \<and>
         (\<forall>i j. 0 \<le> i \<and> i < rows M \<and> 0 \<le> j \<and> j < cols M \<longrightarrow>
                elem R i j = elem M i j - elem a 0 j)"
  using row_major_cells [OF assms(1), where h = "\<lambda>i j x. x - elem a 0 j"] assms(2,3)
  by (simp add: m_subtract_rows_def)

subsection \<open>Means\<close>

lemma column_vector_cells:
  fixes a :: "'a matrix_t" and h :: "int \<Rightarrow> 'a \<Rightarrow> 'a"
  assumes v: "m_valid a" and c: "cols a = 1"
  defines "R \<equiv> for_int (rows a) (\<lambda>j a. elem_set a j 0 (h j (elem a j 0))) a"
  shows "m_valid R \<and> rows R = rows a \<and> cols R = 1 \<and>
         (\<forall>j. 0 \<le> j \<and> j < rows a \<longrightarrow> elem R j 0 = h j (elem a j 0))"
proof -
  have d: "0 \<le> rows a" using v by (simp add: m_valid_def)
  have inb: "0 \<le> elem_off a k 0 \<and> elem_off a k 0 < int (length (data a))"
    if "0 \<le> k" "k < rows a" for k
    using m_valid_offsets [OF v that, of 0] c by simp
  have inj: "k = k'" if "elem_off a k 0 = elem_off a k' 0" for k k'
    using that by (simp add: elem_off_def)
  have "rows R = rows a \<and> cols R = cols a \<and> length (data R) = length (data a) \<and>
         (\<forall>k. 0 \<le> k \<and> k < rows a \<longrightarrow> elem R k 0 = h k (elem a k 0)) \<and>
         (\<forall>i j. 0 \<le> elem_off a i j \<and>
                (\<forall>k. 0 \<le> k \<and> k < rows a \<longrightarrow> elem_off a k 0 \<noteq> elem_off a i j) \<longrightarrow>
                elem R i j = elem a i j)"
    unfolding R_def
    by (rule for_int_elem_set [where ri = "\<lambda>k. k" and ci = "\<lambda>k. 0" and h = h, OF d inb inj])
  then show ?thesis using v c by (simp add: m_valid_same_shape)
qed

lemma row_vector_cells:
  fixes a :: "'a matrix_t" and h :: "int \<Rightarrow> 'a \<Rightarrow> 'a"
  assumes v: "m_valid a" and r: "rows a = 1"
  defines "R \<equiv> for_int (cols a) (\<lambda>j a. elem_set a 0 j (h j (elem a 0 j))) a"
  shows "m_valid R \<and> rows R = 1 \<and> cols R = cols a \<and>
         (\<forall>j. 0 \<le> j \<and> j < cols a \<longrightarrow> elem R 0 j = h j (elem a 0 j))"
proof -
  have d: "0 \<le> cols a" using v by (simp add: m_valid_def)
  have inb: "0 \<le> elem_off a 0 k \<and> elem_off a 0 k < int (length (data a))"
    if "0 \<le> k" "k < cols a" for k
    using m_valid_offsets [OF v _ _ that, of 0] r by simp
  have inj: "k = k'" if "elem_off a 0 k = elem_off a 0 k'" for k k'
    using that r by (simp add: elem_off_def)
  have "rows R = rows a \<and> cols R = cols a \<and> length (data R) = length (data a) \<and>
         (\<forall>k. 0 \<le> k \<and> k < cols a \<longrightarrow> elem R 0 k = h k (elem a 0 k)) \<and>
         (\<forall>i j. 0 \<le> elem_off a i j \<and>
                (\<forall>k. 0 \<le> k \<and> k < cols a \<longrightarrow> elem_off a 0 k \<noteq> elem_off a i j) \<longrightarrow>
                elem R i j = elem a i j)"
    unfolding R_def
    by (rule for_int_elem_set [where ri = "\<lambda>k. 0" and ci = "\<lambda>k. k" and h = h, OF d inb inj])
  then show ?thesis using v r by (simp add: m_valid_same_shape)
qed

lemma m_mean_column_elem:
  fixes M :: "('a::{zero,plus,inverse}) matrix_t"
  assumes v: "m_valid M"
  shows "m_valid (m_mean_column cast M) \<and> rows (m_mean_column cast M) = rows M \<and>
         cols (m_mean_column cast M) = 1 \<and>
         (\<forall>j. 0 \<le> j \<and> j < rows M \<longrightarrow>
            elem (m_mean_column cast M) j 0 = fp_sum (m_row M j) / cast (cols M))"
proof -
  let ?Z = "m_zeros (rows M) 1 :: 'a matrix_t"
  let ?Q = "\<lambda>m a. m_valid a \<and> rows a = rows M \<and> cols a = 1 \<and>
              (\<forall>j. 0 \<le> j \<and> j < rows M \<longrightarrow> elem a j 0 = for_int m (\<lambda>i s. s + elem M j i) 0)"
  let ?sum = "for_int (cols M)
                (\<lambda>i. for_int (rows M) (\<lambda>j a. elem_set a j 0 (elem a j 0 + elem M j i))) ?Z"
  have d: "0 \<le> rows M" "rows M < 2 ^ 31" "0 \<le> cols M" using v by (simp_all add: m_valid_def)
  have vZ: "m_valid ?Z" using d by (intro m_zeros_valid) simp_all
  have Q: "?Q (cols M) ?sum"
  proof (rule for_int_invariant [where P = ?Q])
    show "?Q 0 ?Z" using vZ m_zeros_elem [OF vZ] by (simp add: for_int_nonpos)
  next
    fix m :: int and a :: "'a matrix_t"
    assume m: "0 \<le> m" "m < cols M" and Qa: "?Q m a"
    let ?a' = "for_int (rows M) (\<lambda>j a. elem_set a j 0 (elem a j 0 + elem M j m)) a"
    from Qa have va: "m_valid a" and ra: "rows a = rows M" and ca: "cols a = 1" by simp_all
    have I: "m_valid ?a' \<and> rows ?a' = rows a \<and> cols ?a' = 1 \<and>
         (\<forall>j. 0 \<le> j \<and> j < rows a \<longrightarrow> elem ?a' j 0 = elem a j 0 + elem M j m)"
      using column_vector_cells [OF va ca, where h = "\<lambda>j x. x + elem M j m"] by (simp add: ra)
    have "elem ?a' j 0 = for_int (m + 1) (\<lambda>i s. s + elem M j i) 0" if j: "0 \<le> j" "j < rows M" for j
    proof -
      have "elem ?a' j 0 = elem a j 0 + elem M j m" using I j ra by simp
      also have "\<dots> = for_int m (\<lambda>i s. s + elem M j i) 0 + elem M j m"
        using Qa j by simp
      finally show ?thesis using m by (simp add: for_int_step)
    qed
    with I ra show "?Q (m + 1) ?a'" by simp
  qed (rule d(3))
  then have vs: "m_valid ?sum" and rs: "rows ?sum = rows M" and cs: "cols ?sum = 1" by simp_all
  have mc: "m_mean_column cast M
              = for_int (rows ?sum) (\<lambda>i a. elem_set a i 0 (elem a i 0 / cast (cols M))) ?sum"
    by (simp add: m_mean_column_def Let_def rs)
  have F: "m_valid (m_mean_column cast M) \<and> rows (m_mean_column cast M) = rows ?sum \<and>
         cols (m_mean_column cast M) = 1 \<and>
         (\<forall>j. 0 \<le> j \<and> j < rows ?sum \<longrightarrow>
             elem (m_mean_column cast M) j 0 = elem ?sum j 0 / cast (cols M))"
    unfolding mc by (rule column_vector_cells [OF vs cs, where h = "\<lambda>j x. x / cast (cols M)"])
  have "elem (m_mean_column cast M) j 0 = fp_sum (m_row M j) / cast (cols M)"
    if j: "0 \<le> j" "j < rows M" for j
  proof -
    have "elem (m_mean_column cast M) j 0 = elem ?sum j 0 / cast (cols M)" using F j rs by simp
    also have "elem ?sum j 0 = for_int (cols M) (\<lambda>i s. s + elem M j i) 0" using Q j by simp
    finally show ?thesis by (simp add: for_int_fp_sum m_row_def)
  qed
  with F rs show ?thesis by simp
qed

lemma m_mean_row_elem:
  fixes M :: "('a::{zero,plus,inverse}) matrix_t"
  assumes v: "m_valid M"
  shows "m_valid (m_mean_row cast M) \<and> rows (m_mean_row cast M) = 1 \<and>
         cols (m_mean_row cast M) = cols M \<and>
         (\<forall>j. 0 \<le> j \<and> j < cols M \<longrightarrow>
            elem (m_mean_row cast M) 0 j = fp_sum (m_column M j) / cast (rows M))"
proof -
  let ?Z = "m_zeros 1 (cols M) :: 'a matrix_t"
  let ?Q = "\<lambda>m a. m_valid a \<and> rows a = 1 \<and> cols a = cols M \<and>
              (\<forall>j. 0 \<le> j \<and> j < cols M \<longrightarrow> elem a 0 j = for_int m (\<lambda>i s. s + elem M i j) 0)"
  let ?sum = "for_int (rows M)
                (\<lambda>i. for_int (cols M) (\<lambda>j a. elem_set a 0 j (elem a 0 j + elem M i j))) ?Z"
  have d: "0 \<le> cols M" "cols M < 2 ^ 31" "0 \<le> rows M" using v by (simp_all add: m_valid_def)
  have vZ: "m_valid ?Z" using d by (intro m_zeros_valid) simp_all
  have Q: "?Q (rows M) ?sum"
  proof (rule for_int_invariant [where P = ?Q])
    show "?Q 0 ?Z" using vZ m_zeros_elem [OF vZ] by (simp add: for_int_nonpos)
  next
    fix m :: int and a :: "'a matrix_t"
    assume m: "0 \<le> m" "m < rows M" and Qa: "?Q m a"
    let ?a' = "for_int (cols M) (\<lambda>j a. elem_set a 0 j (elem a 0 j + elem M m j)) a"
    from Qa have va: "m_valid a" and ra: "rows a = 1" and ca: "cols a = cols M" by simp_all
    have I: "m_valid ?a' \<and> rows ?a' = 1 \<and> cols ?a' = cols a \<and>
         (\<forall>j. 0 \<le> j \<and> j < cols a \<longrightarrow> elem ?a' 0 j = elem a 0 j + elem M m j)"
      using row_vector_cells [OF va ra, where h = "\<lambda>j x. x + elem M m j"] by (simp add: ca)
    have "elem ?a' 0 j = for_int (m + 1) (\<lambda>i s. s + elem M i j) 0" if j: "0 \<le> j" "j < cols M" for j
    proof -
      have "elem ?a' 0 j = elem a 0 j + elem M m j" using I j ca by simp
      also have "\<dots> = for_int m (\<lambda>i s. s + elem M i j) 0 + elem M m j"
        using Qa j by simp
      finally show ?thesis using m by (simp add: for_int_step)
    qed
    with I ca show "?Q (m + 1) ?a'" by simp
  qed (rule d(3))
  then have vs: "m_valid ?sum" and rs: "rows ?sum = 1" and cs: "cols ?sum = cols M" by simp_all
  have mc: "m_mean_row cast M
              = for_int (cols ?sum) (\<lambda>i a. elem_set a 0 i (elem a 0 i / cast (rows M))) ?sum"
    by (simp add: m_mean_row_def Let_def cs)
  have F: "m_valid (m_mean_row cast M) \<and> rows (m_mean_row cast M) = 1 \<and>
         cols (m_mean_row cast M) = cols ?sum \<and>
         (\<forall>j. 0 \<le> j \<and> j < cols ?sum \<longrightarrow>
             elem (m_mean_row cast M) 0 j = elem ?sum 0 j / cast (rows M))"
    unfolding mc by (rule row_vector_cells [OF vs rs, where h = "\<lambda>j x. x / cast (rows M)"])
  have "elem (m_mean_row cast M) 0 j = fp_sum (m_column M j) / cast (rows M)"
    if j: "0 \<le> j" "j < cols M" for j
  proof -
    have "elem (m_mean_row cast M) 0 j = elem ?sum 0 j / cast (rows M)" using F j cs by simp
    also have "elem ?sum 0 j = for_int (rows M) (\<lambda>i s. s + elem M i j) 0" using Q j by simp
    finally show ?thesis by (simp add: for_int_fp_sum m_column_def)
  qed
  with F cs show ?thesis by simp
qed

subsection \<open>Covariance\<close>

text \<open>
  The two versions of \<^verbatim>\<open>m_covariance\<close> against the covariance of the spec, element by
  element, for every arithmetic on the element type, every conversion of an \<^verbatim>\<open>int\<close> and
  every way in which the library computes an element of a product.
\<close>

lemma m_copy_valid: "m_valid M \<Longrightarrow> 0 < cols M \<Longrightarrow> m_copy g M = Inr M"
  using m_copy_columns_ok [of M 0 "cols M" g] by (simp add: m_copy_def m_valid_length)

lemma square_bound:
  fixes m :: int
  assumes "0 \<le> m" "m * m < 2 ^ 31"
  shows "m < 2 ^ 31"
proof (rule ccontr)
  assume "\<not> m < 2 ^ 31"
  then have "2 ^ 31 \<le> m" by simp
  then have "2 ^ 31 * 1 \<le> m * m" using assms(1) by (intro mult_mono) simp_all
  with assms(2) show False by simp
qed

lemma m_covariance_cblas_elem:
  fixes M :: "('a::{zero,one,plus,minus,times,inverse}) matrix_t"
  assumes v: "m_valid M" and cp: "0 < cols M" and small: "rows M * rows M < 2 ^ 31"
  shows "\<exists>C. m_covariance_cblas kern cast g M = Inr C \<and> m_valid C \<and>
              rows C = rows M \<and> cols C = rows M \<and>
              (\<forall>i j. 0 \<le> i \<and> i < rows M \<and> 0 \<le> j \<and> j < rows M \<longrightarrow>
                 elem C i j = spec_covariance kern cast M i j)"
proof -
  let ?mu = "\<lambda>i. fp_sum (m_row M i) / cast (cols M)"
  let ?row = "\<lambda>i. map (\<lambda>x. x - ?mu i) (m_row M i)"
  let ?mean = "m_mean_column cast M"
  let ?A = "m_subtract_columns_cblas M ?mean"
  let ?Z = "m_zeros (rows M) (rows M) :: 'a matrix_t"
  let ?G = "?Z\<lparr>data := cblas_dgemm kern CblasNoTrans CblasTrans (rows M) (rows M) (cols M)
                 1 (data ?A) (rows ?A) (data ?A) (rows ?A) 0 (data ?Z) (rows M)\<rparr>"
  let ?c = "cast (if cols M > 1 then cols M - 1 else 1)"
  have d: "0 \<le> rows M" "0 \<le> cols M" using v by (simp_all add: m_valid_def)
  have rs: "rows M < 2 ^ 31" using d(1) small by (rule square_bound)
  have mean: "elem ?mean i 0 = ?mu i" if "0 \<le> i" "i < rows M" for i
    using m_mean_column_elem [OF v, of cast] that by simp
  have A: "m_valid ?A" "rows ?A = rows M" "cols ?A = cols M"
    using m_subtract_columns_cblas_elem [OF v, of ?mean] by simp_all
  have eA: "elem ?A i l = elem M i l - ?mu i" if il: "0 \<le> i" "i < rows M" "0 \<le> l" "l < cols M" for i l
    using m_subtract_columns_cblas_elem [OF v, of ?mean] il mean [OF il(1,2)] by simp
  have rowA: "map (\<lambda>l. elem ?A i l) (map int [0..<nat (cols M)]) = ?row i"
    if i: "0 \<le> i" "i < rows M" for i
  proof -
    have "map (\<lambda>l. elem ?A i l) (map int [0..<nat (cols M)])
            = map (\<lambda>l. elem M i l - ?mu i) (map int [0..<nat (cols M)])"
      by (rule map_int_upt_cong) (rule eA [OF i])
    then show ?thesis by (simp add: m_row_def comp_def)
  qed
  have vZ: "m_valid ?Z" using d rs small by (intro m_zeros_valid)
  have vG: "m_valid ?G" "rows ?G = rows M" "cols ?G = rows M" using vZ by (simp_all add: m_valid_def)
  have eG: "elem ?G i j = kern 1 (?row i) (?row j) 0 0"
    if ij: "0 \<le> i" "i < rows M" "0 \<le> j" "j < rows M" for i j
  proof -
    have "elem ?G i j
            = kern 1 (map (\<lambda>l. dgemm_op CblasNoTrans (data ?A) (rows ?A) i l) (map int [0..<nat (cols M)]))
                     (map (\<lambda>l. dgemm_op CblasTrans (data ?A) (rows ?A) l j) (map int [0..<nat (cols M)]))
                   0 0"
      by (rule gram_elem [OF ij rs small])
    also have "\<dots> = kern 1 (map (\<lambda>l. elem ?A i l) (map int [0..<nat (cols M)]))
                           (map (\<lambda>l. elem ?A j l) (map int [0..<nat (cols M)])) 0 0"
      by (simp only: dgemm_op_elem)
    also have "\<dots> = kern 1 (?row i) (?row j) 0 0"
      by (simp only: rowA [OF ij(1,2)] rowA [OF ij(3,4)])
    finally show ?thesis .
  qed
  let ?C = "m_elem_mult ?G (1 / ?c)"
  have C: "m_valid ?C" "rows ?C = rows M" "cols ?C = rows M"
    using m_elem_mult_elem [OF vG(1), of "1 / ?c"] vG(2,3) by simp_all
  have eC: "elem ?C i j = spec_covariance kern cast M i j"
    if ij: "0 \<le> i" "i < rows M" "0 \<le> j" "j < rows M" for i j
  proof -
    have s: "spec_covariance kern cast M i j = kern 1 (?row i) (?row j) 0 0 * (1 / ?c)"
      by (cases "cols M \<le> 1") (simp_all add: spec_covariance_def Let_def)
    have "elem ?C i j = elem ?G i j * (1 / ?c)"
      using m_elem_mult_elem [OF vG(1), of "1 / ?c"] vG(2,3) ij by simp
    then show ?thesis by (simp only: s eG [OF ij])
  qed
  have "m_covariance_cblas kern cast g M = Inr ?C"
    using m_copy_valid [OF v cp, of g] A
    by (simp add: m_covariance_cblas_def and_then_def Let_def)
  with C eC show ?thesis by (intro exI [of _ ?C]) simp
qed

lemma m_covariance_elem:
  fixes M :: "('a::{zero,one,plus,minus,times,inverse}) matrix_t"
  assumes v: "m_valid M" and cp: "0 < cols M" and small: "cols M * cols M < 2 ^ 31"
  shows "\<exists>C. m_covariance kern cast g M = Inr C \<and> m_valid C \<and>
              rows C = cols M \<and> cols C = cols M \<and>
              (\<forall>i j. 0 \<le> i \<and> i < cols M \<and> 0 \<le> j \<and> j < cols M \<longrightarrow>
                 elem C i j = rows_covariance kern cast M i j)"
proof -
  let ?mu = "\<lambda>j. fp_sum (m_column M j) / cast (rows M)"
  let ?col = "\<lambda>j. map (\<lambda>x. x - ?mu j) (m_column M j)"
  let ?mean = "m_mean_row cast M"
  let ?c = "cast (if rows M > 1 then rows M - 1 else 1)"
  let ?Z = "m_zeros (cols M) (cols M) :: 'a matrix_t"
  have d: "0 \<le> rows M" "0 \<le> cols M" using v by (simp_all add: m_valid_def)
  have cs: "cols M < 2 ^ 31" using d(2) small by (rule square_bound)
  note mr = m_mean_row_elem [OF v, of cast]
  have mean: "elem ?mean 0 j = ?mu j" if "0 \<le> j" "j < cols M" for j
    using mr that by simp
  from m_subtract_rows_elem [OF v, of ?mean] mr
  obtain A where sub: "m_subtract_rows M ?mean = Inr A"
    and A: "m_valid A" "rows A = rows M" "cols A = cols M"
    and sA: "\<forall>l i. 0 \<le> l \<and> l < rows M \<and> 0 \<le> i \<and> i < cols M \<longrightarrow>
                elem A l i = elem M l i - elem ?mean 0 i"
    by auto
  let ?G = "?Z\<lparr>data := cblas_dgemm kern CblasTrans CblasNoTrans (cols M) (cols M) (rows M)
                 1 (data A) (rows A) (data A) (rows A) 0 (data ?Z) (cols M)\<rparr>"
  have eA: "elem A l i = elem M l i - ?mu i" if li: "0 \<le> l" "l < rows M" "0 \<le> i" "i < cols M" for l i
    using sA li mean [OF li(3,4)] by simp
  have colA: "map (\<lambda>l. elem A l j) (map int [0..<nat (rows M)]) = ?col j"
    if j: "0 \<le> j" "j < cols M" for j
  proof -
    have "map (\<lambda>l. elem A l j) (map int [0..<nat (rows M)])
            = map (\<lambda>l. elem M l j - ?mu j) (map int [0..<nat (rows M)])"
      by (rule map_int_upt_cong) (rule eA [OF _ _ j])
    then show ?thesis by (simp add: m_column_def comp_def)
  qed
  have vZ: "m_valid ?Z" using d cs small by (intro m_zeros_valid)
  have vG: "m_valid ?G" "rows ?G = cols M" "cols ?G = cols M" using vZ by (simp_all add: m_valid_def)
  have eG: "elem ?G i j = kern 1 (?col i) (?col j) 0 0"
    if ij: "0 \<le> i" "i < cols M" "0 \<le> j" "j < cols M" for i j
  proof -
    have "elem ?G i j
            = kern 1 (map (\<lambda>l. dgemm_op CblasTrans (data A) (rows A) i l) (map int [0..<nat (rows M)]))
                     (map (\<lambda>l. dgemm_op CblasNoTrans (data A) (rows A) l j) (map int [0..<nat (rows M)]))
                   0 0"
      by (rule gram_elem [OF ij cs small])
    also have "\<dots> = kern 1 (map (\<lambda>l. elem A l i) (map int [0..<nat (rows M)]))
                           (map (\<lambda>l. elem A l j) (map int [0..<nat (rows M)])) 0 0"
      by (simp only: dgemm_op_elem)
    also have "\<dots> = kern 1 (?col i) (?col j) 0 0"
      by (simp only: colA [OF ij(1,2)] colA [OF ij(3,4)])
    finally show ?thesis .
  qed
  let ?C = "m_elem_mult ?G (1 / ?c)"
  have C: "m_valid ?C" "rows ?C = cols M" "cols ?C = cols M"
    using m_elem_mult_elem [OF vG(1), of "1 / ?c"] vG(2,3) by simp_all
  have eC: "elem ?C i j = rows_covariance kern cast M i j"
    if ij: "0 \<le> i" "i < cols M" "0 \<le> j" "j < cols M" for i j
  proof -
    have s: "rows_covariance kern cast M i j = kern 1 (?col i) (?col j) 0 0 * (1 / ?c)"
      by (cases "rows M \<le> 1") (simp_all add: rows_covariance_def Let_def)
    have "elem ?C i j = elem ?G i j * (1 / ?c)"
      using m_elem_mult_elem [OF vG(1), of "1 / ?c"] vG(2,3) ij by simp
    then show ?thesis by (simp only: s eG [OF ij])
  qed
  have "m_covariance kern cast g M = Inr ?C"
    using m_copy_valid [OF v cp, of g] sub A
    by (simp add: m_covariance_def and_then_def Let_def)
  with C eC show ?thesis by (intro exI [of _ ?C]) simp
qed




subsection \<open>Covariance in exact arithmetic\<close>

lemma fp_minus_Fin: "Fin a - Fin b = Fin (a - b)"
  by (simp add: minus_precision_t_def)

lemma m_row_Fin:
  assumes "m_valid M" "m_finite M" "0 \<le> i" "i < rows M"
  shows "m_row M i = map (\<lambda>l. Fin (fp_val (elem M i l))) (map int [0..<nat (cols M)])"
  unfolding m_row_def by (rule map_int_upt_cong) (rule m_finite_elem [OF assms])

lemma m_column_Fin:
  assumes "m_valid M" "m_finite M" "0 \<le> j" "j < cols M"
  shows "m_column M j = map (\<lambda>l. Fin (fp_val (elem M l j))) (map int [0..<nat (rows M)])"
  unfolding m_column_def by (rule map_int_upt_cong) (rule m_finite_elem [OF assms(1,2) _ _ assms(3,4)])

lemma centred_Fin:
  "map (\<lambda>x. x - Fin mu) (map (\<lambda>l. Fin (r l)) ls) = map (\<lambda>l. Fin (r l - mu)) ls"
  by (simp add: fp_minus_Fin comp_def)

text \<open>
  In exact arithmetic, with a library product that adds up all the terms, the two
  covariances of the spec are the usual sums over the observations: for a matrix of
  finite entries, \<open>(1 / (n - 1)) * (\<Sum>l. (M(i, l) - mean(i)) * (M(j, l) - mean(j)))\<close> with the
  columns as observations, and the same with the rows.
\<close>

lemma spec_covariance_exact:
  assumes v: "m_valid M" and f: "m_finite M" and cp: "0 < cols M"
    and ij: "0 \<le> i" "i < rows M" "0 \<le> j" "j < rows M"
  shows "spec_covariance dgemm_exact fp_of_int M i j = Fin (real_covariance M i j)"
proof -
  let ?x = "\<lambda>i l. fp_val (elem M i l)"
  let ?mu = "real_mean_column M"
  let ?ls = "map int [0..<nat (cols M)]"
  have c0: "0 \<le> cols M" using cp by simp
  have mean: "fp_sum (m_row M i) / fp_of_int (cols M) = Fin (?mu i)" if "0 \<le> i" "i < rows M" for i
    unfolding m_row_Fin [OF v f that] fp_sum_Fin [OF c0]
    using cp by (simp add: fp_of_int_def real_mean_column_def)
  have A: "map (\<lambda>x. x - fp_sum (m_row M i) / fp_of_int (cols M)) (m_row M i)
             = map (\<lambda>l. Fin (?x i l - ?mu i)) ?ls" if i: "0 \<le> i" "i < rows M" for i
    unfolding mean [OF i] unfolding m_row_Fin [OF v f i] by (rule centred_Fin)
  have K: "dgemm_exact 1 (map (\<lambda>l. Fin (?x i l - ?mu i)) ?ls) (map (\<lambda>l. Fin (?x j l - ?mu j)) ?ls) 0 0
             = Fin (\<Sum>l\<in>{0..<cols M}. (?x i l - ?mu i) * (?x j l - ?mu j))"
    unfolding dgemm_exact_Fin [OF c0] by (simp add: zero_precision_t_def)
  have c: "1 / fp_of_int (if cols M \<le> 1 then 1 else cols M - 1)
             = Fin (1 / (if cols M \<le> 1 then 1 else of_int (cols M - 1)))"
    by (simp add: fp_of_int_def one_precision_t_def)
  have "spec_covariance dgemm_exact fp_of_int M i j
          = dgemm_exact 1 (map (\<lambda>l. Fin (?x i l - ?mu i)) ?ls) (map (\<lambda>l. Fin (?x j l - ?mu j)) ?ls) 0 0
            * (1 / fp_of_int (if cols M \<le> 1 then 1 else cols M - 1))"
    by (simp only: spec_covariance_def Let_def A [OF ij(1,2)] A [OF ij(3,4)])
  then show ?thesis unfolding K c by (simp add: real_covariance_def)
qed

lemma rows_covariance_exact:
  assumes v: "m_valid M" and f: "m_finite M" and rp: "0 < rows M"
    and ij: "0 \<le> i" "i < cols M" "0 \<le> j" "j < cols M"
  shows "rows_covariance dgemm_exact fp_of_int M i j = Fin (real_rows_covariance M i j)"
proof -
  let ?x = "\<lambda>j l. fp_val (elem M l j)"
  let ?mu = "real_mean_row M"
  let ?ls = "map int [0..<nat (rows M)]"
  have r0: "0 \<le> rows M" using rp by simp
  have mean: "fp_sum (m_column M j) / fp_of_int (rows M) = Fin (?mu j)" if "0 \<le> j" "j < cols M" for j
    unfolding m_column_Fin [OF v f that] fp_sum_Fin [OF r0]
    using rp by (simp add: fp_of_int_def real_mean_row_def)
  have A: "map (\<lambda>x. x - fp_sum (m_column M j) / fp_of_int (rows M)) (m_column M j)
             = map (\<lambda>l. Fin (?x j l - ?mu j)) ?ls" if j: "0 \<le> j" "j < cols M" for j
    unfolding mean [OF j] unfolding m_column_Fin [OF v f j] by (rule centred_Fin)
  have K: "dgemm_exact 1 (map (\<lambda>l. Fin (?x i l - ?mu i)) ?ls) (map (\<lambda>l. Fin (?x j l - ?mu j)) ?ls) 0 0
             = Fin (\<Sum>l\<in>{0..<rows M}. (?x i l - ?mu i) * (?x j l - ?mu j))"
    unfolding dgemm_exact_Fin [OF r0] by (simp add: zero_precision_t_def)
  have c: "1 / fp_of_int (if rows M \<le> 1 then 1 else rows M - 1)
             = Fin (1 / (if rows M \<le> 1 then 1 else of_int (rows M - 1)))"
    by (simp add: fp_of_int_def one_precision_t_def)
  have "rows_covariance dgemm_exact fp_of_int M i j
          = dgemm_exact 1 (map (\<lambda>l. Fin (?x i l - ?mu i)) ?ls) (map (\<lambda>l. Fin (?x j l - ?mu j)) ?ls) 0 0
            * (1 / fp_of_int (if rows M \<le> 1 then 1 else rows M - 1))"
    by (simp only: rows_covariance_def Let_def A [OF ij(1,2)] A [OF ij(3,4)])
  then show ?thesis unfolding K c by (simp add: real_rows_covariance_def)
qed

lemma gram_psd:
  fixes a :: "int \<Rightarrow> int \<Rightarrow> real" and x :: "int \<Rightarrow> real"
  assumes "0 \<le> d" "finite I" "finite L"
  shows "0 \<le> (\<Sum>i\<in>I. \<Sum>j\<in>I. x i * (d * (\<Sum>l\<in>L. a i l * a j l)) * x j)"
proof -
  have sq: "(\<Sum>i\<in>I. x i * a i l)\<^sup>2 = (\<Sum>i\<in>I. \<Sum>j\<in>I. (x i * a i l) * (x j * a j l))" for l
    by (simp add: power2_eq_square sum_product)
  have "(\<Sum>i\<in>I. \<Sum>j\<in>I. x i * (d * (\<Sum>l\<in>L. a i l * a j l)) * x j)
        = (\<Sum>i\<in>I. \<Sum>j\<in>I. \<Sum>l\<in>L. d * ((x i * a i l) * (x j * a j l)))"
    by (intro sum.cong refl) (simp add: sum_distrib_left sum_distrib_right mult_ac)
  also have "\<dots> = (\<Sum>i\<in>I. \<Sum>l\<in>L. \<Sum>j\<in>I. d * ((x i * a i l) * (x j * a j l)))"
    by (intro sum.cong refl sum.swap)
  also have "\<dots> = (\<Sum>l\<in>L. \<Sum>i\<in>I. \<Sum>j\<in>I. d * ((x i * a i l) * (x j * a j l)))"
    by (rule sum.swap)
  also have "\<dots> = (\<Sum>l\<in>L. d * (\<Sum>i\<in>I. x i * a i l)\<^sup>2)"
    by (simp add: sq sum_distrib_left)
  also have "0 \<le> \<dots>" using assms(1) by (intro sum_nonneg mult_nonneg_nonneg) simp_all
  finally show ?thesis .
qed

lemma real_covariance_sym: "real_covariance M i j = real_covariance M j i"
  by (simp add: real_covariance_def mult.commute)

lemma real_rows_covariance_sym: "real_rows_covariance M i j = real_rows_covariance M j i"
  by (simp add: real_rows_covariance_def mult.commute)

lemma real_covariance_psd:
  "0 \<le> (\<Sum>i\<in>{0..<n}. \<Sum>j\<in>{0..<n}. x i * real_covariance M i j * x j)"
  unfolding real_covariance_def by (rule gram_psd) simp_all

lemma real_rows_covariance_psd:
  "0 \<le> (\<Sum>i\<in>{0..<n}. \<Sum>j\<in>{0..<n}. x i * real_rows_covariance M i j * x j)"
  unfolding real_rows_covariance_def by (rule gram_psd) simp_all

lemma m_covariance_cblas_exact:
  assumes v: "m_valid M" and f: "m_finite M" and cp: "0 < cols M" and small: "rows M * rows M < 2 ^ 31"
  shows "\<exists>C. m_covariance_cblas dgemm_exact fp_of_int g M = Inr C \<and> m_valid C \<and>
              rows C = rows M \<and> cols C = rows M \<and>
              (\<forall>i j. 0 \<le> i \<and> i < rows M \<and> 0 \<le> j \<and> j < rows M \<longrightarrow>
                 elem C i j = Fin (real_covariance M i j))"
  using m_covariance_cblas_elem [OF v cp small, of dgemm_exact fp_of_int g]
    spec_covariance_exact [OF v f cp]
  by auto

lemma m_covariance_exact:
  assumes v: "m_valid M" and f: "m_finite M" and rp: "0 < rows M" and cp: "0 < cols M"
    and small: "cols M * cols M < 2 ^ 31"
  shows "\<exists>C. m_covariance dgemm_exact fp_of_int g M = Inr C \<and> m_valid C \<and>
              rows C = cols M \<and> cols C = cols M \<and>
              (\<forall>i j. 0 \<le> i \<and> i < cols M \<and> 0 \<le> j \<and> j < cols M \<longrightarrow>
                 elem C i j = Fin (real_rows_covariance M i j))"
  using m_covariance_elem [OF v cp small, of dgemm_exact fp_of_int g]
    rows_covariance_exact [OF v f rp]
  by auto

text \<open>
  C7. For every matrix \<open>M\<close> with finite entries and at least two columns, in exact
  arithmetic (the exact interpretation of \<^verbatim>\<open>precision_t\<close>, its conversion of an \<^verbatim>\<open>int\<close>, and
  a library product that adds up all the terms), the matrix \<open>C\<close> that \<^verbatim>\<open>m_covariance\<close>
  returns has finite entries, is symmetric, and is positive semi-definite:
  \<open>x\<^sup>T * C * x \<ge> 0\<close> for every vector \<open>x\<close>. This holds for the \<^verbatim>\<open>m_covariance\<close> of either
  version of the library.
\<close>

theorem m_covariance_symmetric_psd:
  assumes "m_valid M" "m_finite M" "0 < rows M" "2 \<le> cols M"
  shows "(rows M * rows M < 2 ^ 31 \<longrightarrow>
            (\<exists>C. m_covariance_cblas dgemm_exact fp_of_int g M = Inr C \<and> rows C = rows M \<and> cols C = rows M \<and>
                 (\<forall>i j. 0 \<le> i \<and> i < rows C \<and> 0 \<le> j \<and> j < cols C \<longrightarrow>
                    fp_finite (elem C i j) \<and> elem C i j = elem C j i) \<and>
                 (\<forall>x. 0 \<le> (\<Sum>i\<in>{0..<rows C}. \<Sum>j\<in>{0..<cols C}. x i * fp_val (elem C i j) * x j)))) \<and>
         (cols M * cols M < 2 ^ 31 \<longrightarrow>
            (\<exists>C. m_covariance dgemm_exact fp_of_int g M = Inr C \<and> rows C = cols M \<and> cols C = cols M \<and>
                 (\<forall>i j. 0 \<le> i \<and> i < rows C \<and> 0 \<le> j \<and> j < cols C \<longrightarrow>
                    fp_finite (elem C i j) \<and> elem C i j = elem C j i) \<and>
                 (\<forall>x. 0 \<le> (\<Sum>i\<in>{0..<rows C}. \<Sum>j\<in>{0..<cols C}. x i * fp_val (elem C i j) * x j))))"
proof (intro conjI impI)
  have cp: "0 < cols M" using assms(4) by simp
  {
    assume small: "rows M * rows M < 2 ^ 31"
    from m_covariance_cblas_exact [OF assms(1,2) cp small, of g]
    obtain C where C: "m_covariance_cblas dgemm_exact fp_of_int g M = Inr C" "rows C = rows M" "cols C = rows M"
      and el: "\<And>i j. 0 \<le> i \<Longrightarrow> i < rows M \<Longrightarrow> 0 \<le> j \<Longrightarrow> j < rows M \<Longrightarrow>
                 elem C i j = Fin (real_covariance M i j)"
      by auto
    have "(\<Sum>i\<in>{0..<rows C}. \<Sum>j\<in>{0..<cols C}. x i * fp_val (elem C i j) * x j)
            = (\<Sum>i\<in>{0..<rows M}. \<Sum>j\<in>{0..<rows M}. x i * real_covariance M i j * x j)" for x
      unfolding C(2,3) by (intro sum.cong refl) (simp add: el)
    then have "\<forall>x. 0 \<le> (\<Sum>i\<in>{0..<rows C}. \<Sum>j\<in>{0..<cols C}. x i * fp_val (elem C i j) * x j)"
      by (simp add: real_covariance_psd)
    moreover have "\<forall>i j. 0 \<le> i \<and> i < rows C \<and> 0 \<le> j \<and> j < cols C \<longrightarrow>
                    fp_finite (elem C i j) \<and> elem C i j = elem C j i"
      using el C(2,3) by (simp add: real_covariance_sym [of M])
    ultimately show "\<exists>C. m_covariance_cblas dgemm_exact fp_of_int g M = Inr C \<and> rows C = rows M \<and> cols C = rows M \<and>
                 (\<forall>i j. 0 \<le> i \<and> i < rows C \<and> 0 \<le> j \<and> j < cols C \<longrightarrow>
                    fp_finite (elem C i j) \<and> elem C i j = elem C j i) \<and>
                 (\<forall>x. 0 \<le> (\<Sum>i\<in>{0..<rows C}. \<Sum>j\<in>{0..<cols C}. x i * fp_val (elem C i j) * x j))"
      using C by blast
  }
  {
    assume small: "cols M * cols M < 2 ^ 31"
    from m_covariance_exact [OF assms(1,2,3) cp small, of g]
    obtain C where C: "m_covariance dgemm_exact fp_of_int g M = Inr C" "rows C = cols M" "cols C = cols M"
      and el: "\<And>i j. 0 \<le> i \<Longrightarrow> i < cols M \<Longrightarrow> 0 \<le> j \<Longrightarrow> j < cols M \<Longrightarrow>
                 elem C i j = Fin (real_rows_covariance M i j)"
      by auto
    have "(\<Sum>i\<in>{0..<rows C}. \<Sum>j\<in>{0..<cols C}. x i * fp_val (elem C i j) * x j)
            = (\<Sum>i\<in>{0..<cols M}. \<Sum>j\<in>{0..<cols M}. x i * real_rows_covariance M i j * x j)" for x
      unfolding C(2,3) by (intro sum.cong refl) (simp add: el)
    then have "\<forall>x. 0 \<le> (\<Sum>i\<in>{0..<rows C}. \<Sum>j\<in>{0..<cols C}. x i * fp_val (elem C i j) * x j)"
      by (simp add: real_rows_covariance_psd)
    moreover have "\<forall>i j. 0 \<le> i \<and> i < rows C \<and> 0 \<le> j \<and> j < cols C \<longrightarrow>
                    fp_finite (elem C i j) \<and> elem C i j = elem C j i"
      using el C(2,3) by (simp add: real_rows_covariance_sym [of M])
    ultimately show "\<exists>C. m_covariance dgemm_exact fp_of_int g M = Inr C \<and> rows C = cols M \<and> cols C = cols M \<and>
                 (\<forall>i j. 0 \<le> i \<and> i < rows C \<and> 0 \<le> j \<and> j < cols C \<longrightarrow>
                    fp_finite (elem C i j) \<and> elem C i j = elem C j i) \<and>
                 (\<forall>x. 0 \<le> (\<Sum>i\<in>{0..<rows C}. \<Sum>j\<in>{0..<cols C}. x i * fp_val (elem C i j) * x j))"
      using C by blast
  }
qed


theorem m_covariance_symmetric_psd_witness:
  "m_valid (m_initialize_data junk 3 4 test_m_covariance_data) \<and>
   m_finite (m_initialize_data junk 3 4 test_m_covariance_data) \<and>
   (\<exists>C. m_covariance_cblas dgemm_exact fp_of_int junk (m_initialize_data junk 3 4 test_m_covariance_data) = Inr C \<and>
        rows C = 3 \<and> cols C = 3 \<and> elem C 0 2 = elem C 2 0 \<and>
        0 \<le> (\<Sum>i\<in>{0..<rows C}. \<Sum>j\<in>{0..<cols C}. of_int i * fp_val (elem C i j) * of_int j)) \<and>
   (\<exists>C. m_covariance dgemm_exact fp_of_int junk (m_initialize_data junk 3 4 test_m_covariance_data) = Inr C \<and>
        rows C = 4 \<and> cols C = 4 \<and> elem C 0 3 = elem C 3 0 \<and>
        0 \<le> (\<Sum>i\<in>{0..<rows C}. \<Sum>j\<in>{0..<cols C}. of_int i * fp_val (elem C i j) * of_int j))"
proof -
  let ?M = "m_initialize_data junk 3 4 test_m_covariance_data"
  have M: "?M = \<lparr>rows = 3, cols = 4,
                 data = [Fin 5, Fin 1, Fin 4, Fin 0, Fin (- 5), Fin 9,
                         Fin 3, Fin 7, Fin 8, Fin 7, Fin 3, Fin 10]\<rparr>"
    by code_simp
  have v: "m_valid ?M" and f: "m_finite ?M" and r: "0 < rows ?M" and c: "2 \<le> cols ?M"
    and s1: "rows ?M * rows ?M < 2 ^ 31" and s2: "cols ?M * cols ?M < 2 ^ 31"
    and dims: "rows ?M = 3" "cols ?M = 4"
    unfolding M by (simp_all add: m_valid_def m_finite_def)
  note T = m_covariance_symmetric_psd [OF v f r c, of junk]
  from T s1 dims obtain C1 where C1: "m_covariance_cblas dgemm_exact fp_of_int junk ?M = Inr C1" "rows C1 = 3" "cols C1 = 3"
    and sym1: "\<forall>i j. 0 \<le> i \<and> i < rows C1 \<and> 0 \<le> j \<and> j < cols C1 \<longrightarrow>
                    fp_finite (elem C1 i j) \<and> elem C1 i j = elem C1 j i"
    and psd1: "\<forall>x. 0 \<le> (\<Sum>i\<in>{0..<rows C1}. \<Sum>j\<in>{0..<cols C1}. x i * fp_val (elem C1 i j) * x j)"
    by auto
  from T s2 dims obtain C2 where C2: "m_covariance dgemm_exact fp_of_int junk ?M = Inr C2" "rows C2 = 4" "cols C2 = 4"
    and sym2: "\<forall>i j. 0 \<le> i \<and> i < rows C2 \<and> 0 \<le> j \<and> j < cols C2 \<longrightarrow>
                    fp_finite (elem C2 i j) \<and> elem C2 i j = elem C2 j i"
    and psd2: "\<forall>x. 0 \<le> (\<Sum>i\<in>{0..<rows C2}. \<Sum>j\<in>{0..<cols C2}. x i * fp_val (elem C2 i j) * x j)"
    by auto
  have "elem C1 0 2 = elem C1 2 0" using sym1 C1 by simp
  moreover have "elem C2 0 3 = elem C2 3 0" using sym2 C2 by simp
  moreover note psd1 [rule_format, of of_int] psd2 [rule_format, of of_int]
  ultimately show ?thesis using C1 C2 v f by blast
qed

section \<open>The scan on squared-L2 distances\<close>

text \<open>
  Where the scan is right: when every distance is a finite value other than \<open>-1\<close>, the
  result is the first column of least distance.
\<close>

lemma nearest_neighbor_first_minimum:
  assumes c: "0 < cols P"
    and dj: "\<And>j. 0 \<le> j \<Longrightarrow> j < cols P \<Longrightarrow> d P_test 0 P j = Inr (Fin (f j))"
    and ns: "\<And>j. 0 \<le> j \<Longrightarrow> j < cols P \<Longrightarrow> f j \<noteq> - 1"
  shows "\<exists>r. nearest_neighbor P P_test d = Inr r \<and> 0 \<le> r \<and> r < cols P \<and>
             (\<forall>j. 0 \<le> j \<and> j < cols P \<longrightarrow> f r \<le> f j) \<and>
             (\<forall>j. 0 \<le> j \<and> j < r \<longrightarrow> f r < f j)"
proof -
  let ?body = "\<lambda>j (min_index, min_dist).
             and_then (d P_test 0 P j)
               (\<lambda>dist. if fp_eq min_dist (Fin (- 1)) \<or> fp_less dist min_dist
                       then Inr (j, dist) else Inr (min_index, min_dist))"
  let ?Q = "\<lambda>k (t :: int \<times> precision_t).
              (k = 0 \<and> t = (- 1, Fin (- 1))) \<or>
              (0 < k \<and> 0 \<le> fst t \<and> fst t < k \<and> snd t = Fin (f (fst t)) \<and>
               (\<forall>j. 0 \<le> j \<and> j < k \<longrightarrow> f (fst t) \<le> f j) \<and>
               (\<forall>j. 0 \<le> j \<and> j < fst t \<longrightarrow> f (fst t) < f j))"
  have "\<exists>t. for_int_try (cols P) ?body (- 1, Fin (- 1)) = Inr t \<and> ?Q (cols P) t"
  proof (rule for_int_try_invariant [where P = ?Q])
    show "?Q 0 (- 1, Fin (- 1))" by simp
  next
    fix k :: int and t :: "int \<times> precision_t"
    assume k: "0 \<le> k" "k < cols P" and Q: "?Q k t"
    obtain mi md where t: "t = (mi, md)" by (cases t)
    have dk: "d P_test 0 P k = Inr (Fin (f k))" using k by (rule dj)
    show "\<exists>t'. ?body k t = Inr t' \<and> ?Q (k + 1) t'"
    proof (cases "k = 0")
      case True
      with Q t have "md = Fin (- 1)" by simp
      then have "?body k t = Inr (0, Fin (f 0))"
        using t dk True by (simp add: and_then_def fp_eq_def)
      moreover have "?Q (k + 1) (0, Fin (f 0))" using True by (auto simp: order_le_less)
      ultimately show ?thesis by blast
    next
      case False
      with k have kp: "0 < k" by simp
      with Q t have mi: "0 \<le> mi" "mi < k" and md: "md = Fin (f mi)"
        and le: "\<And>j. 0 \<le> j \<Longrightarrow> j < k \<Longrightarrow> f mi \<le> f j"
        and lt: "\<And>j. 0 \<le> j \<Longrightarrow> j < mi \<Longrightarrow> f mi < f j"
        by simp_all
      have "f mi \<noteq> - 1" using mi k by (intro ns) simp_all
      then have ne: "\<not> fp_eq md (Fin (- 1))" using md by (simp add: fp_eq_def)
      show ?thesis
      proof (cases "f k < f mi")
        case True
        then have "?body k t = Inr (k, Fin (f k))"
          using t dk ne md by (simp add: and_then_def)
        moreover have "f k \<le> f j" if "0 \<le> j" "j < k + 1" for j
        proof (cases "j = k")
          case False
          with that have "j < k" by simp
          from le [OF that(1) this] True show ?thesis by simp
        qed simp
        moreover have "f k < f j" if "0 \<le> j" "j < k" for j
          using le [OF that] True by simp
        ultimately show ?thesis using kp by auto
      next
        case False
        then have "?body k t = Inr (mi, md)"
          using t dk ne md by (simp add: and_then_def)
        moreover have "f mi \<le> f j" if "0 \<le> j" "j < k + 1" for j
        proof (cases "j = k")
          case True
          with False show ?thesis by simp
        next
          case False
          with that have "j < k" by simp
          from le [OF that(1) this] show ?thesis .
        qed
        ultimately show ?thesis using kp mi md lt by auto
      qed
    qed
  qed (use c in simp)
  then obtain t where run: "for_int_try (cols P) ?body (- 1, Fin (- 1)) = Inr t"
    and Q: "?Q (cols P) t" by blast
  have "nearest_neighbor P P_test d = Inr (fst t)"
    using run by (simp add: nearest_neighbor_def and_then_def case_prod_unfold)
  with Q c show ?thesis by auto
qed

text \<open>
  In exact arithmetic the squared-L2 distance of two finite columns is a finite value
  and not negative, so the scan on these distances returns the first nearest column.
\<close>

lemma m_dist_L2_finite:
  assumes vA: "m_valid A" and fA: "m_finite A" and vB: "m_valid B" and fB: "m_finite B"
    and r: "rows A = rows B" and i: "0 \<le> i" "i < cols A" and j: "0 \<le> j" "j < cols B"
  shows "m_dist_L2 A i B j =
           Inr (Fin (\<Sum>k\<in>{0..<rows A}. (fp_val (elem A k i) - fp_val (elem B k j))\<^sup>2))"
proof -
  have r0: "0 \<le> rows A" using vA by (simp add: m_valid_def)
  have "for_int (rows A) (\<lambda>k acc. acc + (elem A k i - elem B k j) * (elem A k i - elem B k j)) (Fin 0)
          = Fin (0 + (\<Sum>k\<in>{0..<rows A}. (fp_val (elem A k i) - fp_val (elem B k j))\<^sup>2))"
  proof (rule for_int_sum_Fin [OF r0])
    fix k assume k: "0 \<le> k" "k < rows A"
    have a: "elem A k i = Fin (fp_val (elem A k i))" using vA fA k i by (rule m_finite_elem)
    have b: "elem B k j = Fin (fp_val (elem B k j))" using vB fB k j r by (intro m_finite_elem) simp_all
    have "(elem A k i - elem B k j) * (elem A k i - elem B k j)
            = (Fin (fp_val (elem A k i)) - Fin (fp_val (elem B k j))) *
              (Fin (fp_val (elem A k i)) - Fin (fp_val (elem B k j)))"
      by (simp only: a [symmetric] b [symmetric])
    then show "(elem A k i - elem B k j) * (elem A k i - elem B k j)
            = Fin ((fp_val (elem A k i) - fp_val (elem B k j))\<^sup>2)"
      by (simp add: fp_minus_Fin power2_eq_square)
  qed
  then show ?thesis using r by (simp add: m_dist_L2_def Let_def zero_precision_t_def)
qed

lemma nearest_neighbor_L2_first_minimum:
  assumes vP: "m_valid P" and fP: "m_finite P" and vT: "m_valid T" and fT: "m_finite T"
    and r: "rows T = rows P" and cT: "0 < cols T" and cP: "0 < cols P"
  defines "f \<equiv> \<lambda>j. \<Sum>k\<in>{0..<rows T}. (fp_val (elem T k 0) - fp_val (elem P k j))\<^sup>2"
  shows "\<exists>r. nearest_neighbor P T m_dist_L2 = Inr r \<and> 0 \<le> r \<and> r < cols P \<and>
             (\<forall>j. 0 \<le> j \<and> j < cols P \<longrightarrow> f r \<le> f j) \<and>
             (\<forall>j. 0 \<le> j \<and> j < r \<longrightarrow> f r < f j)"
proof (rule nearest_neighbor_first_minimum [OF cP])
  fix j assume j: "0 \<le> j" "j < cols P"
  show "m_dist_L2 T 0 P j = Inr (Fin (f j))"
    unfolding f_def using vT fT vP fP r _ cT j by (rule m_dist_L2_finite) simp
  have "0 \<le> f j" unfolding f_def by (intro sum_nonneg) simp
  then show "f j \<noteq> - 1" by simp
qed


end
